theory Spec2Isabelle
  imports Complex_Main "HOL-Library.Sublist"
begin

section \<open>VaniAI session engine: the data model of \<^verbatim>\<open>types.ts\<close> and \<^verbatim>\<open>App.tsx\<close>\<close>

subsection \<open>Loosely typed values of the tool-call argument bag\<close>

text \<open>
  \<^verbatim>\<open>const args = fc.args as any\<close>: the fields of the argument bag are untyped JSON values.
  Arrays and objects are always truthy and their contents are never inspected by the
  handler, so they are one constructor. A number that comes from JSON is never NaN.
\<close>

datatype jsval = JUndefined | JNull | JBool bool | JNum real | JStr string | JObj

fun truthy :: "jsval \<Rightarrow> bool" where
  "truthy JUndefined = False"
| "truthy JNull = False"
| "truthy (JBool b) = b"
| "truthy (JNum x) = (x \<noteq> 0)"
| "truthy (JStr s) = (s \<noteq> [])"
| "truthy JObj = True"

text \<open>JavaScript's \<^verbatim>\<open>a || b\<close>.\<close>

definition js_or :: "jsval \<Rightarrow> jsval \<Rightarrow> jsval" where
  "js_or a b = (if truthy a then a else b)"

type_synonym argbag = "string \<rightharpoonup> jsval"

text \<open>Property access \<^verbatim>\<open>args.k\<close>: an absent key reads as \<^verbatim>\<open>undefined\<close>.\<close>

definition getProp :: "argbag \<Rightarrow> string \<Rightarrow> jsval" where
  "getProp args k = (case args k of None \<Rightarrow> JUndefined | Some v \<Rightarrow> v)"

subsection \<open>Numbers as decimal strings\<close>

definition digit_char :: "nat \<Rightarrow> char" where
  "digit_char d = ''0123456789'' ! d"

fun string_of_nat :: "nat \<Rightarrow> string" where
  "string_of_nat n =
     (if n < 10 then [digit_char n] else string_of_nat (n div 10) @ [digit_char (n mod 10)])"

declare string_of_nat.simps [simp del]

text \<open>
  What a template literal or \<^verbatim>\<open>toString()\<close> yields for an integer-valued number below
  \<^verbatim>\<open>1e21\<close>: the decimal digits, with a sign when negative.
\<close>

definition js_int_string :: "int \<Rightarrow> string" where
  "js_int_string i = (if i < 0 then CHR ''-'' # string_of_nat (nat (- i)) else string_of_nat (nat i))"




subsection \<open>Double-precision arithmetic\<close>

text \<open>
  A JavaScript number is an IEEE 754 binary64 value, and \<^verbatim>\<open>*\<close> and \<^verbatim>\<open>+\<close> round the exact
  result to the nearest such value, ties to the even significand. \<open>expo x\<close> is the
  exponent of the binade of a positive \<open>x\<close>, not below that of the subnormal numbers;
  \<open>ulp x\<close> is the distance between neighbouring doubles there (the significand has 53
  bits). Results stay far below the overflow threshold here, so it is left out.
\<close>

definition expo :: "real \<Rightarrow> int" where
  "expo x = max \<lfloor>log 2 x\<rfloor> (- 1022)"

definition ulp :: "real \<Rightarrow> real" where
  "ulp x = 2 powr (of_int (expo x) - 52)"

definition roundHalfEven :: "real \<Rightarrow> int" where
  "roundHalfEven y =
     (if y - of_int \<lfloor>y\<rfloor> < 1 / 2 then \<lfloor>y\<rfloor>
      else if 1 / 2 < y - of_int \<lfloor>y\<rfloor> then \<lfloor>y\<rfloor> + 1
      else if even \<lfloor>y\<rfloor> then \<lfloor>y\<rfloor> else \<lfloor>y\<rfloor> + 1)"

definition toDouble :: "real \<Rightarrow> real" where
  "toDouble x =
     (if x = 0 then 0
      else sgn x * (of_int (roundHalfEven (\<bar>x\<bar> / ulp \<bar>x\<bar>)) * ulp \<bar>x\<bar>))"

definition fmul :: "real \<Rightarrow> real \<Rightarrow> real" where
  "fmul a b = toDouble (a * b)"

definition fadd :: "real \<Rightarrow> real \<Rightarrow> real" where
  "fadd a b = toDouble (a + b)"

subsection \<open>\<^verbatim>\<open>types.ts\<close>\<close>

datatype complaint_status = Registered | Assigned | Resolved

text \<open>
  \<^verbatim>\<open>ComplaintData\<close>. The five fields copied from the argument bag are declared
  \<^verbatim>\<open>string\<close> but receive whatever the bag holds, so they are \<^typ>\<open>jsval\<close> here.
\<close>

record ComplaintData =
  id_cd :: string
  callReference :: string
  timestamp_cd :: string
  complaintType :: jsval
  description :: jsval
  wardNumber :: jsval
  zone :: jsval
  language :: jsval
  status_cd :: complaint_status

datatype sender = User | Ai

record TranscriptionItem =
  id_ti :: string
  sender_ti :: sender
  text_ti :: string
  timestamp_ti :: nat

subsection \<open>Messages of the live stream\<close>

record FunctionCall =
  id_fc :: "string option"
  name_fc :: "string option"
  args_fc :: "argbag option"

record FunctionResponse =
  id_fr :: "string option"
  name_fr :: "string option"
  result_fr :: string

text \<open>
  \<^verbatim>\<open>LiveServerMessage\<close>, as far as \<^verbatim>\<open>onmessage\<close> reads it. Every level is optional, as in
  the handler's \<^verbatim>\<open>?.\<close> chains; \<^verbatim>\<open>parts\<close> is indexed without \<^verbatim>\<open>?.\<close> and
  \<^verbatim>\<open>functionCalls\<close> is iterated without a check. A transcription event is
  represented by its \<^verbatim>\<open>text\<close>.
\<close>

record Blob =
  data :: "string option"

record Part =
  inlineData :: "Blob option"

record Content =
  parts :: "Part list option"

record ServerContent =
  inputTranscription :: "string option"
  outputTranscription :: "string option"
  modelTurn :: "Content option"
  interrupted :: bool

record ToolCall =
  functionCalls :: "FunctionCall list option"

record LiveServerMessage =
  serverContent :: "ServerContent option"
  toolCall :: "ToolCall option"

datatype error = TypeError | InvalidStateError | QuotaExceededError | DecodeError | CloseError

subsection \<open>The world the handlers run in\<close>

text \<open>
  What the platform supplies: the decoder of \<^verbatim>\<open>utils/audioUtils\<close> (only the duration of
  the decoded buffer is used), the locale rendering of a date, the successive results
  of \<^verbatim>\<open>Math.random()\<close>, whether \<^verbatim>\<open>localStorage.setItem\<close> accepts a value, and whether
  \<^verbatim>\<open>stop()\<close> on a source node that has already ended raises (older engines) or does
  nothing.
\<close>

record platform =
  decodeAudioData :: "string \<Rightarrow> error + real"
  toLocaleString :: "nat \<Rightarrow> string"
  mathRandom :: "nat \<Rightarrow> real"
  storageAccepts :: "ComplaintData list \<Rightarrow> bool"
  strictStop :: bool

text \<open>The clocks read while one message is handled: \<^verbatim>\<open>Date.now()\<close> in milliseconds and
  \<^verbatim>\<open>outputAudioCtx.currentTime\<close> in seconds.\<close>

record clock =
  now :: nat
  currentTime :: real

datatype node_state = Scheduled | Ended | Stopped

record SourceNode =
  startAt :: real
  duration :: real
  state_node :: node_state

datatype ctx_state = Running | Closed

record LiveSession =
  connected :: bool
  closeRaises :: bool

datatype track_state = Live | TrackEnded

text \<open>
  The component's state hooks and refs, followed by the objects outside it that the
  handlers act on: the key-value store, the source nodes created on the output
  context, the tool responses sent on the stream, the pending \<^verbatim>\<open>setTimeout(stopCall)\<close>
  timers (their due times), the number of \<^verbatim>\<open>Math.random()\<close> draws made, and the
  exceptions of state updaters that the next render will rethrow. Then whether the
  component tree is mounted, and the stream sessions, microphone streams and pairs of
  audio contexts that the component no longer references, each in the state
  \<^verbatim>\<open>stopCall\<close> left it in.

  While a handler runs, the four state hooks hold what the render after the handler
  commits if no updater raises; see \<open>render\<close>.
\<close>

record session =
  activeCall :: bool
  transcriptions :: "TranscriptionItem list"
  dbComplaints :: "ComplaintData list"
  logs :: "string list"
  audioContextsRef :: "(ctx_state \<times> ctx_state) option"
  nextStartTimeRef :: real
  sourcesRef :: "nat list"
  sessionRef :: "LiveSession option"
  streamRef :: "track_state list option"
  localStorage :: "string \<rightharpoonup> ComplaintData list"
  nodes :: "nat \<rightharpoonup> SourceNode"
  nodeCount :: nat
  sent :: "FunctionResponse list"
  timers :: "nat list"
  draws :: nat
  updaterErrors :: "error list"
  mounted :: bool
  formerSessions :: "LiveSession list"
  formerStreams :: "track_state list list"
  formerContexts :: "(ctx_state \<times> ctx_state) list"

type_synonym outcome = "(error \<times> session) + session"

section \<open>The operations of \<^verbatim>\<open>App.tsx\<close>\<close>

subsection \<open>\<^verbatim>\<open>addLog\<close> and \<^verbatim>\<open>stopCall\<close>\<close>

text \<open>\<^verbatim>\<open>setLogs(prev => [msg, ...prev.slice(0, 20)])\<close>\<close>

definition addLog :: "string \<Rightarrow> session \<Rightarrow> session" where
  "addLog msg s = s\<lparr>logs := msg # take 20 (logs s)\<rparr>"

text \<open>
  \<^verbatim>\<open>AudioScheduledSourceNode.stop()\<close>: raises when the node was never started (it is not
  in the table of started nodes); stops a scheduled or playing node; on a node that
  already ended or was stopped it raises on a strict engine and does nothing otherwise.
\<close>

definition node_stop :: "platform \<Rightarrow> nat \<Rightarrow> (nat \<rightharpoonup> SourceNode) \<Rightarrow> error + (nat \<rightharpoonup> SourceNode)" where
  "node_stop P n tbl =
     (case tbl n of
        None \<Rightarrow> Inl InvalidStateError
      | Some nd \<Rightarrow>
          (case state_node nd of
             Scheduled \<Rightarrow> Inr (tbl(n \<mapsto> nd\<lparr>state_node := Stopped\<rparr>))
           | Ended \<Rightarrow> if strictStop P then Inl InvalidStateError else Inr tbl
           | Stopped \<Rightarrow> if strictStop P then Inl InvalidStateError else Inr tbl))"

text \<open>\<^verbatim>\<open>try { s.stop(); } catch (e) {}\<close>\<close>

definition try_stop :: "platform \<Rightarrow> session \<Rightarrow> nat \<Rightarrow> session" where
  "try_stop P s n = (case node_stop P n (nodes s) of Inl e \<Rightarrow> s | Inr tbl \<Rightarrow> s\<lparr>nodes := tbl\<rparr>)"

text \<open>\<^verbatim>\<open>sourcesRef.current.forEach(...); sourcesRef.current.clear();\<close>\<close>

definition stopSources :: "platform \<Rightarrow> session \<Rightarrow> session" where
  "stopSources P s = (foldl (try_stop P) s (sourcesRef s))\<lparr>sourcesRef := []\<rparr>"

definition session_close :: "LiveSession \<Rightarrow> error + LiveSession" where
  "session_close h = (if closeRaises h then Inl CloseError else Inr (h\<lparr>connected := False\<rparr>))"

text \<open>\<^verbatim>\<open>AudioContext.close()\<close> rejects on a context that is already closed.\<close>

definition ctx_close :: "ctx_state \<Rightarrow> error + ctx_state" where
  "ctx_close c = (case c of Closed \<Rightarrow> Inl InvalidStateError | Running \<Rightarrow> Inr Closed)"

text \<open>
  The \<^verbatim>\<open>try\<close> block around both \<^verbatim>\<open>close()\<close> calls: when closing the input context
  raises, the output context is not closed.
\<close>

definition closeContexts :: "ctx_state \<times> ctx_state \<Rightarrow> ctx_state \<times> ctx_state" where
  "closeContexts c =
     (case ctx_close (fst c) of
        Inl e \<Rightarrow> c
      | Inr i \<Rightarrow> (case ctx_close (snd c) of Inl e \<Rightarrow> (i, snd c) | Inr out \<Rightarrow> (i, out)))"

text \<open>\<^verbatim>\<open>track.stop()\<close> ends a track and never raises.\<close>

definition track_stop :: "track_state \<Rightarrow> track_state" where
  "track_stop t = TrackEnded"

text \<open>
  Lines 99 to 120. Setting a ref to \<^verbatim>\<open>null\<close> drops the handle; the object it held stays
  in the world as it was left, closed or not, and is kept among the former objects.
\<close>

definition stopCall :: "platform \<Rightarrow> session \<Rightarrow> session" where
  "stopCall P s =
     (let s1 = s\<lparr>activeCall := False\<rparr>;
          s2 = (case sessionRef s1 of
                  None \<Rightarrow> s1
                | Some h \<Rightarrow>
                    (case session_close h of
                       Inl e \<Rightarrow> s1\<lparr>formerSessions := formerSessions s1 @ [h]\<rparr>
                     | Inr h' \<Rightarrow> s1\<lparr>formerSessions := formerSessions s1 @ [h']\<rparr>)
                      \<lparr>sessionRef := None\<rparr>);
          s3 = stopSources P s2;
          s4 = s3\<lparr>nextStartTimeRef := 0\<rparr>;
          s5 = (case streamRef s4 of
                  None \<Rightarrow> s4
                | Some tracks \<Rightarrow>
                    s4\<lparr>formerStreams := formerStreams s4 @ [map track_stop tracks],
                       streamRef := None\<rparr>);
          s6 = (case audioContextsRef s5 of
                  None \<Rightarrow> s5
                | Some c \<Rightarrow>
                    s5\<lparr>formerContexts := formerContexts s5 @ [closeContexts c],
                       audioContextsRef := None\<rparr>)
      in addLog ''Session safely terminated.'' s6)"

text \<open>The state of the component before any call was started.\<close>

definition initialSession :: session where
  "initialSession =
     \<lparr>activeCall = False, transcriptions = [], dbComplaints = [],
      logs = [''VaniAI Quantum Kernel Online.''], audioContextsRef = None,
      nextStartTimeRef = 0, sourcesRef = [], sessionRef = None, streamRef = None,
      localStorage = Map.empty, nodes = Map.empty, nodeCount = 0, sent = [], timers = [],
      draws = 0, updaterErrors = [], mounted = True, formerSessions = [], formerStreams = [],
      formerContexts = []\<rparr>"

subsection \<open>Transcription branches of \<^verbatim>\<open>onmessage\<close>\<close>

text \<open>
  The updater passed to \<^verbatim>\<open>setTranscriptions\<close>, the same for both speakers up to the
  sender tag. \<^verbatim>\<open>prev[prev.length - 1]\<close> is \<^verbatim>\<open>undefined\<close> on the empty array.
\<close>

definition appendTranscription :: "sender \<Rightarrow> nat \<Rightarrow> string \<Rightarrow> TranscriptionItem list \<Rightarrow> TranscriptionItem list" where
  "appendTranscription who t txt prev =
     (if prev \<noteq> [] \<and> sender_ti (last prev) = who
      then prev[length prev - 1 := (last prev)\<lparr>text_ti := text_ti (last prev) @ txt\<rparr>]
      else prev @ [\<lparr>id_ti = string_of_nat t, sender_ti = who, text_ti = txt, timestamp_ti = t\<rparr>])"

definition onTranscription :: "sender \<Rightarrow> clock \<Rightarrow> string \<Rightarrow> session \<Rightarrow> session" where
  "onTranscription who clk txt s =
     s\<lparr>transcriptions := appendTranscription who (now clk) txt (transcriptions s)\<rparr>"

subsection \<open>Audio scheduling branch of \<^verbatim>\<open>onmessage\<close>\<close>

text \<open>\<^verbatim>\<open>Set.add\<close> and \<^verbatim>\<open>Set.delete\<close> on the insertion-ordered set of source nodes.\<close>

definition set_add :: "nat \<Rightarrow> nat list \<Rightarrow> nat list" where
  "set_add n xs = (if n \<in> set xs then xs else xs @ [n])"

definition set_delete :: "nat \<Rightarrow> nat list \<Rightarrow> nat list" where
  "set_delete n xs = filter (\<lambda>m. m \<noteq> n) xs"

text \<open>
  Lines 193 to 201. The cursor is raised to the output clock before the payload is
  decoded; \<^verbatim>\<open>createBufferSource()\<close> yields a node not seen before, identified by the
  count of nodes created so far; \<^verbatim>\<open>start(when)\<close> enters it in the table of started nodes.
\<close>

definition scheduleAudio :: "platform \<Rightarrow> clock \<Rightarrow> string \<Rightarrow> session \<Rightarrow> outcome" where
  "scheduleAudio P clk base64Audio s =
     (let s1 = s\<lparr>nextStartTimeRef := max (nextStartTimeRef s) (currentTime clk)\<rparr>
      in case decodeAudioData P base64Audio of
           Inl e \<Rightarrow> Inl (e, s1)
         | Inr d \<Rightarrow>
             (let source = nodeCount s1;
                  s2 = s1\<lparr>nodeCount := Suc source\<rparr>;
                  s3 = s2\<lparr>nodes := (nodes s2)(source \<mapsto>
                          \<lparr>startAt = nextStartTimeRef s2, duration = d, state_node = Scheduled\<rparr>)\<rparr>;
                  s4 = s3\<lparr>nextStartTimeRef := nextStartTimeRef s3 + d\<rparr>
              in Inr (s4\<lparr>sourcesRef := set_add source (sourcesRef s4)\<rparr>)))"

text \<open>\<^verbatim>\<open>source.onended = () => sourcesRef.current.delete(source)\<close>\<close>

definition onended :: "nat \<Rightarrow> session \<Rightarrow> session" where
  "onended source s = s\<lparr>sourcesRef := set_delete source (sourcesRef s)\<rparr>"

text \<open>A scheduled node plays to its end: the engine marks it ended and runs \<^verbatim>\<open>onended\<close>.\<close>

definition naturalCompletion :: "nat \<Rightarrow> session \<Rightarrow> session" where
  "naturalCompletion source s =
     onended source
       (case nodes s source of
          None \<Rightarrow> s
        | Some nd \<Rightarrow> s\<lparr>nodes := (nodes s)(source \<mapsto> nd\<lparr>state_node := Ended\<rparr>)\<rparr>)"

text \<open>
  \<^verbatim>\<open>message.serverContent?.modelTurn?.parts[0]?.inlineData?.data\<close>: the chain stops with
  \<^verbatim>\<open>undefined\<close> at an absent \<^verbatim>\<open>serverContent\<close> or \<^verbatim>\<open>modelTurn\<close>, and raises when
  \<^verbatim>\<open>modelTurn\<close> is there without \<^verbatim>\<open>parts\<close>.
\<close>

definition base64AudioOf :: "LiveServerMessage \<Rightarrow> error + string option" where
  "base64AudioOf m =
     (case serverContent m of
        None \<Rightarrow> Inr None
      | Some sc \<Rightarrow>
          (case modelTurn sc of
             None \<Rightarrow> Inr None
           | Some mt \<Rightarrow>
               (case parts mt of
                  None \<Rightarrow> Inl TypeError
                | Some [] \<Rightarrow> Inr None
                | Some (p # ps) \<Rightarrow>
                    (case inlineData p of None \<Rightarrow> Inr None | Some b \<Rightarrow> Inr (data b)))))"

subsection \<open>Tool-call branch of \<^verbatim>\<open>onmessage\<close>\<close>

text \<open>\<^verbatim>\<open>`VMC-${Math.floor(100000 + Math.random() * 900000)}`\<close>, on the draw \<open>r\<close>.\<close>

definition callIdOf :: "real \<Rightarrow> string" where
  "callIdOf r = ''VMC-'' @ js_int_string \<lfloor>fadd 100000 (fmul r 900000)\<rfloor>"

definition newComplaint :: "string \<Rightarrow> string \<Rightarrow> argbag \<Rightarrow> ComplaintData" where
  "newComplaint callId stamp args =
     \<lparr>id_cd = callId,
      callReference = callId,
      timestamp_cd = stamp,
      complaintType = js_or (getProp args ''complaintType'') (JStr ''Uncategorized''),
      description = js_or (getProp args ''description'') (JStr []),
      wardNumber = js_or (getProp args ''wardNumber'') (JStr ''N/A''),
      zone = js_or (getProp args ''zone'') (JStr ''N/A''),
      language = js_or (getProp args ''language'') (JStr ''Detected''),
      status_cd = Registered\<rparr>"

text \<open>
  The updater passed to \<^verbatim>\<open>setDbComplaints\<close> (lines 219 to 223). The stored value is the
  sequence itself, standing for its \<^verbatim>\<open>JSON.stringify\<close> text. \<^verbatim>\<open>localStorage.setItem\<close>
  raises when the store does not accept the value, before \<^verbatim>\<open>updated\<close> is returned.
\<close>

definition dbUpdater ::
  "platform \<Rightarrow> ComplaintData \<Rightarrow> ComplaintData list \<Rightarrow> (string \<rightharpoonup> ComplaintData list)
     \<Rightarrow> error + ComplaintData list \<times> (string \<rightharpoonup> ComplaintData list)" where
  "dbUpdater P c prev store =
     (let updated = c # prev
      in if storageAccepts P updated
         then Inr (updated, store(''vaniai_v3_db'' \<mapsto> updated))
         else Inl QuotaExceededError)"

text \<open>
  \<^verbatim>\<open>setDbComplaints(updater)\<close>: the call queues the updater and returns; an exception of
  the updater never reaches the caller. React runs the updater for the render that
  follows the handler. What the updater returns is the state that render commits;
  what it raises is what that render rethrows, and is kept for it in
  \<open>updaterErrors\<close>. The write to the store is made when the updater runs.
\<close>

definition setDbComplaints :: "platform \<Rightarrow> ComplaintData \<Rightarrow> session \<Rightarrow> session" where
  "setDbComplaints P c s =
     (case dbUpdater P c (dbComplaints s) (localStorage s) of
        Inl e \<Rightarrow> s\<lparr>updaterErrors := updaterErrors s @ [e]\<rparr>
      | Inr (updated, store) \<Rightarrow> s\<lparr>dbComplaints := updated, localStorage := store\<rparr>)"

definition sendToolResponse :: "FunctionResponse \<Rightarrow> session \<Rightarrow> session" where
  "sendToolResponse r s = s\<lparr>sent := sent s @ [r]\<rparr>"

text \<open>
  Lines 206 to 233. \<^verbatim>\<open>Math.random()\<close> is drawn before the bag is read, so the draw is
  consumed also when \<^verbatim>\<open>fc.args\<close> is absent and reading \<^verbatim>\<open>args.complaintType\<close> raises.
\<close>

definition registerComplaint :: "platform \<Rightarrow> clock \<Rightarrow> FunctionCall \<Rightarrow> session \<Rightarrow> outcome" where
  "registerComplaint P clk fc s =
     (let callId = callIdOf (mathRandom P (draws s));
          s1 = s\<lparr>draws := Suc (draws s)\<rparr>
      in case args_fc fc of
           None \<Rightarrow> Inl (TypeError, s1)
         | Some args \<Rightarrow>
             (let c = newComplaint callId (toLocaleString P (now clk)) args;
                  s2 = setDbComplaints P c s1;
                  s3 = addLog (''Integrated Record Created: '' @ callId) s2
              in Inr (sendToolResponse
                        \<lparr>id_fr = id_fc fc, name_fr = name_fc fc,
                         result_fr = ''Success. Reference ID provided to user is '' @ callId\<rparr> s3)))"

text \<open>\<^verbatim>\<open>setTimeout(stopCall, 2000)\<close>: a timer due 2000 ms after the present.\<close>

definition setTimeoutStopCall :: "clock \<Rightarrow> session \<Rightarrow> session" where
  "setTimeoutStopCall clk s = s\<lparr>timers := timers s @ [now clk + 2000]\<rparr>"

definition disconnectCall :: "clock \<Rightarrow> session \<Rightarrow> session" where
  "disconnectCall clk s = setTimeoutStopCall clk (addLog ''User requested closure. Ending call.'' s)"

text \<open>The body of the loop over \<^verbatim>\<open>message.toolCall.functionCalls\<close>.\<close>

definition dispatchFunctionCall :: "platform \<Rightarrow> clock \<Rightarrow> FunctionCall \<Rightarrow> session \<Rightarrow> outcome" where
  "dispatchFunctionCall P clk fc s =
     (if name_fc fc = Some ''register_complaint'' then registerComplaint P clk fc s
      else if name_fc fc = Some ''disconnect_call'' then Inr (disconnectCall clk s)
      else Inr s)"

fun dispatchAll :: "platform \<Rightarrow> clock \<Rightarrow> FunctionCall list \<Rightarrow> session \<Rightarrow> outcome" where
  "dispatchAll P clk [] s = Inr s"
| "dispatchAll P clk (fc # fcs) s =
     (case dispatchFunctionCall P clk fc s of
        Inl e \<Rightarrow> Inl e
      | Inr s' \<Rightarrow> dispatchAll P clk fcs s')"

definition onToolCall :: "platform \<Rightarrow> clock \<Rightarrow> ToolCall \<Rightarrow> session \<Rightarrow> outcome" where
  "onToolCall P clk tc s =
     (case functionCalls tc of
        None \<Rightarrow> Inl (TypeError, s)
      | Some fcs \<Rightarrow> dispatchAll P clk fcs s)"

subsection \<open>Interruption branch and the whole handler\<close>

text \<open>Lines 241 to 243.\<close>

definition onInterrupted :: "platform \<Rightarrow> session \<Rightarrow> session" where
  "onInterrupted P s = (stopSources P s)\<lparr>nextStartTimeRef := 0\<rparr>"

text \<open>
  The four parts of \<^verbatim>\<open>onmessage\<close>, each guarded as in the source: lines 167 to 190,
  191 to 202, 203 to 239 and 240 to 244.
\<close>

definition transcriptionBranches :: "clock \<Rightarrow> LiveServerMessage \<Rightarrow> session \<Rightarrow> session" where
  "transcriptionBranches clk m s =
     (let s1 = (case serverContent m of
                  None \<Rightarrow> s
                | Some sc \<Rightarrow>
                    (case inputTranscription sc of
                       None \<Rightarrow> s
                     | Some txt \<Rightarrow> onTranscription User clk txt s))
      in case serverContent m of
           None \<Rightarrow> s1
         | Some sc \<Rightarrow>
             (case outputTranscription sc of
                None \<Rightarrow> s1
              | Some txt \<Rightarrow> onTranscription Ai clk txt s1))"

definition audioBranch :: "platform \<Rightarrow> clock \<Rightarrow> LiveServerMessage \<Rightarrow> session \<Rightarrow> outcome" where
  "audioBranch P clk m s =
     (case base64AudioOf m of
        Inl e \<Rightarrow> Inl (e, s)
      | Inr None \<Rightarrow> Inr s
      | Inr (Some base64Audio) \<Rightarrow>
          if base64Audio \<noteq> [] then scheduleAudio P clk base64Audio s else Inr s)"

definition toolCallBranch :: "platform \<Rightarrow> clock \<Rightarrow> LiveServerMessage \<Rightarrow> session \<Rightarrow> outcome" where
  "toolCallBranch P clk m s =
     (case toolCall m of None \<Rightarrow> Inr s | Some tc \<Rightarrow> onToolCall P clk tc s)"

definition interruptedBranch :: "platform \<Rightarrow> LiveServerMessage \<Rightarrow> session \<Rightarrow> session" where
  "interruptedBranch P m s =
     (case serverContent m of
        None \<Rightarrow> s
      | Some sc \<Rightarrow> if interrupted sc then onInterrupted P s else s)"

text \<open>Sequencing: an exception ends the handler with the state reached so far.\<close>

definition andThen :: "outcome \<Rightarrow> (session \<Rightarrow> outcome) \<Rightarrow> outcome" where
  "andThen r f = (case r of Inl e \<Rightarrow> Inl e | Inr s \<Rightarrow> f s)"

text \<open>
  \<^verbatim>\<open>onmessage\<close>, the branches in the order of the source. The handler is taken as
  one step: nothing else runs between its first and last line.
\<close>

definition onmessage :: "platform \<Rightarrow> clock \<Rightarrow> LiveServerMessage \<Rightarrow> session \<Rightarrow> outcome" where
  "onmessage P clk m s =
     andThen
       (andThen (audioBranch P clk m (transcriptionBranches clk m s)) (toolCallBranch P clk m))
       (\<lambda>s'. Inr (interruptedBranch P m s'))"

subsection \<open>Timers\<close>

text \<open>
  The event loop at time \<open>t\<close>: every pending timer that is due runs its callback,
  \<^verbatim>\<open>stopCall\<close>, and is removed; the others stay pending.
\<close>

definition fireTimers :: "platform \<Rightarrow> nat \<Rightarrow> session \<Rightarrow> session" where
  "fireTimers P t s =
     foldl (\<lambda>s' d. stopCall P s')
       (s\<lparr>timers := filter (\<lambda>d. \<not> d \<le> t) (timers s)\<rparr>)
       (filter (\<lambda>d. d \<le> t) (timers s))"

section \<open>Running the handlers\<close>

text \<open>The state a handler leaves behind, whether it returned or raised.\<close>

definition outcome_state :: "outcome \<Rightarrow> session" where
  "outcome_state r = (case r of Inl (e, s) \<Rightarrow> s | Inr s \<Rightarrow> s)"

definition raised :: "outcome \<Rightarrow> bool" where
  "raised r = (case r of Inl x \<Rightarrow> True | Inr s \<Rightarrow> False)"

text \<open>Messages that carry one kind of event only.\<close>

definition noContent :: ServerContent where
  "noContent =
     \<lparr>inputTranscription = None, outputTranscription = None, modelTurn = None,
      interrupted = False\<rparr>"

definition transcriptionMessage :: "sender \<Rightarrow> string \<Rightarrow> LiveServerMessage" where
  "transcriptionMessage who txt =
     \<lparr>serverContent =
        Some (case who of
                User \<Rightarrow> noContent\<lparr>inputTranscription := Some txt\<rparr>
              | Ai \<Rightarrow> noContent\<lparr>outputTranscription := Some txt\<rparr>),
      toolCall = None\<rparr>"

definition audioMessage :: "string \<Rightarrow> LiveServerMessage" where
  "audioMessage base64Audio =
     \<lparr>serverContent =
        Some (noContent\<lparr>modelTurn :=
                Some \<lparr>parts = Some [\<lparr>inlineData = Some \<lparr>data = Some base64Audio\<rparr>\<rparr>]\<rparr>\<rparr>),
      toolCall = None\<rparr>"

definition toolCallMessage :: "FunctionCall list \<Rightarrow> LiveServerMessage" where
  "toolCallMessage fcs = \<lparr>serverContent = None, toolCall = Some \<lparr>functionCalls = Some fcs\<rparr>\<rparr>"

definition interruptedMessage :: LiveServerMessage where
  "interruptedMessage = \<lparr>serverContent = Some (noContent\<lparr>interrupted := True\<rparr>), toolCall = None\<rparr>"

text \<open>
  Partial transcript fragments in arrival order: the speaker, the value of
  \<^verbatim>\<open>Date.now()\<close> when the fragment is handled, and the text. \<open>assemble\<close> feeds them to
  the updater one after the other.
\<close>

record fragment =
  frag_sender :: sender
  frag_time :: nat
  frag_text :: string

definition assemble :: "fragment list \<Rightarrow> TranscriptionItem list \<Rightarrow> TranscriptionItem list" where
  "assemble fs prev =
     foldl (\<lambda>p f. appendTranscription (frag_sender f) (frag_time f) (frag_text f) p) prev fs"

text \<open>
  The maximal runs of consecutive fragments of one speaker, and the entry the
  specification expects for a run: the speaker of the run, the concatenation of its
  texts, and id and time stamp of its first fragment.
\<close>

fun speakerRuns :: "fragment list \<Rightarrow> fragment list list" where
  "speakerRuns [] = []"
| "speakerRuns (f # fs) =
     (case speakerRuns fs of
        [] \<Rightarrow> [[f]]
      | r # rs \<Rightarrow>
          if frag_sender (hd r) = frag_sender f then (f # r) # rs else [f] # r # rs)"

definition runEntry :: "fragment list \<Rightarrow> TranscriptionItem" where
  "runEntry r =
     \<lparr>id_ti = string_of_nat (frag_time (hd r)), sender_ti = frag_sender (hd r),
      text_ti = concat (map frag_text r), timestamp_ti = frag_time (hd r)\<rparr>"

text \<open>Audio payloads scheduled one after the other, with the clock read at each.\<close>

fun scheduleMany :: "platform \<Rightarrow> (clock \<times> string) list \<Rightarrow> session \<Rightarrow> outcome" where
  "scheduleMany P [] s = Inr s"
| "scheduleMany P (b # bs) s =
     (case scheduleAudio P (fst b) (snd b) s of
        Inl e \<Rightarrow> Inl e
      | Inr s' \<Rightarrow> scheduleMany P bs s')"

text \<open>
  The nodes such a sequence is expected to create from the cursor \<open>c\<close>: each starts
  at the larger of the cursor and the clock, and moves the cursor to its end.
\<close>

fun expectedNodes :: "platform \<Rightarrow> real \<Rightarrow> (clock \<times> string) list \<Rightarrow> SourceNode list" where
  "expectedNodes P c [] = []"
| "expectedNodes P c (b # bs) =
     (case decodeAudioData P (snd b) of
        Inl e \<Rightarrow> []
      | Inr d \<Rightarrow>
          \<lparr>startAt = max c (currentTime (fst b)), duration = d, state_node = Scheduled\<rparr>
            # expectedNodes P (max c (currentTime (fst b)) + d) bs)"

text \<open>The nodes \<open>k, k + 1, ...\<close> of a node table, \<open>n\<close> of them.\<close>

fun nodesFrom :: "(nat \<rightharpoonup> SourceNode) \<Rightarrow> nat \<Rightarrow> nat \<Rightarrow> SourceNode list" where
  "nodesFrom tbl k 0 = []"
| "nodesFrom tbl k (Suc n) =
     (case tbl k of None \<Rightarrow> [] | Some nd \<Rightarrow> nd # nodesFrom tbl (Suc k) n)"

text \<open>What \<^verbatim>\<open>stop()\<close> under \<^verbatim>\<open>try\<close> does to one node, and to a table on a list of nodes.\<close>

definition stoppedNode :: "SourceNode \<Rightarrow> SourceNode" where
  "stoppedNode nd = (if state_node nd = Scheduled then nd\<lparr>state_node := Stopped\<rparr> else nd)"

definition try_stop_tbl :: "platform \<Rightarrow> (nat \<rightharpoonup> SourceNode) \<Rightarrow> nat \<Rightarrow> (nat \<rightharpoonup> SourceNode)" where
  "try_stop_tbl P tbl n = (case node_stop P n tbl of Inl e \<Rightarrow> tbl | Inr t \<Rightarrow> t)"

text \<open>
  The render that follows a handler, from the state \<open>s\<close> before the handler and the
  state \<open>s'\<close> the handler left. On a mounted tree with no updater exception it commits.
  When an updater raised, the render rethrows the exception; the source has no error
  boundary, so React unmounts the component tree: nothing of the handler's state
  updates is committed and the state hooks are gone (the fields keep what was last
  committed); the refs and the objects behind them are not touched, and writes that
  earlier updaters of the batch made to the store stay. On a tree that is already
  unmounted a state update does nothing and its updater is never run.
\<close>

definition lastCommitted :: "session \<Rightarrow> session \<Rightarrow> session" where
  "lastCommitted s s' =
     s'\<lparr>activeCall := activeCall s, transcriptions := transcriptions s,
        dbComplaints := dbComplaints s, logs := logs s\<rparr>"

definition render :: "session \<Rightarrow> session \<Rightarrow> session" where
  "render s s' =
     (if \<not> mounted s
      then (lastCommitted s s')
             \<lparr>localStorage := localStorage s, updaterErrors := updaterErrors s, mounted := False\<rparr>
      else if updaterErrors s' = [] then s'
      else (lastCommitted s s')\<lparr>updaterErrors := [], mounted := False\<rparr>)"

text \<open>The events of a session and the event loop.\<close>

datatype event = Message clock LiveServerMessage | SourceCompleted nat | TimersAt nat

definition step :: "platform \<Rightarrow> session \<Rightarrow> event \<Rightarrow> session" where
  "step P s ev =
     (case ev of
        Message clk m \<Rightarrow> render s (outcome_state (onmessage P clk m s))
      | SourceCompleted n \<Rightarrow> naturalCompletion n s
      | TimersAt t \<Rightarrow> render s (fireTimers P t s))"

definition run :: "platform \<Rightarrow> event list \<Rightarrow> session \<Rightarrow> session" where
  "run P evs s = foldl (step P) s evs"

text \<open>The state \<^verbatim>\<open>stopCall\<close> must reach: inactive, every handle dropped, nothing scheduled.\<close>

definition released :: "session \<Rightarrow> bool" where
  "released s =
     (\<not> activeCall s \<and> sessionRef s = None \<and> sourcesRef s = [] \<and> nextStartTimeRef s = 0 \<and>
      streamRef s = None \<and> audioContextsRef s = None)"

text \<open>
  Every device the component has let go of is released: the tracks of each former
  microphone stream are ended and both contexts of each former pair are closed.
\<close>

definition devicesReleased :: "session \<Rightarrow> bool" where
  "devicesReleased s =
     (list_all (list_all (\<lambda>t. t = TrackEnded)) (formerStreams s) \<and>
      list_all (\<lambda>c. c = (Closed, Closed)) (formerContexts s))"

subsection \<open>Concrete inputs\<close>

definition decodeByLength :: "string \<Rightarrow> error + real" where
  "decodeByLength b = Inr (real (length b))"

definition stampOf :: "nat \<Rightarrow> string" where
  "stampOf t = string_of_nat t"

definition halfDraw :: "nat \<Rightarrow> real" where
  "halfDraw i = 1 / 2"

definition acceptAll :: "ComplaintData list \<Rightarrow> bool" where
  "acceptAll xs = True"

definition acceptNone :: "ComplaintData list \<Rightarrow> bool" where
  "acceptNone xs = False"

definition examplePlatform :: platform where
  "examplePlatform =
     \<lparr>decodeAudioData = decodeByLength, toLocaleString = stampOf, mathRandom = halfDraw,
      storageAccepts = acceptAll, strictStop = True\<rparr>"

definition fullStorePlatform :: platform where
  "fullStorePlatform = examplePlatform\<lparr>storageAccepts := acceptNone\<rparr>"

definition exampleClock :: clock where
  "exampleClock = \<lparr>now = 1000, currentTime = 5\<rparr>"

definition waterLeakArgs :: argbag where
  "waterLeakArgs =
     [''complaintType'' \<mapsto> JStr ''Water Leak'', ''description'' \<mapsto> JStr ''pipe burst'',
      ''language'' \<mapsto> JStr ''Gujarati'']"

definition registerCall :: FunctionCall where
  "registerCall =
     \<lparr>id_fc = Some ''fc-1'', name_fc = Some ''register_complaint'', args_fc = Some waterLeakArgs\<rparr>"

definition disconnectCallFc :: FunctionCall where
  "disconnectCallFc =
     \<lparr>id_fc = Some ''fc-2'', name_fc = Some ''disconnect_call'', args_fc = Some Map.empty\<rparr>"

definition unknownCall :: FunctionCall where
  "unknownCall =
     \<lparr>id_fc = Some ''fc-3'', name_fc = Some ''lookup_status'', args_fc = Some Map.empty\<rparr>"

text \<open>
  A session in the middle of a call: the stream's \<^verbatim>\<open>close()\<close> raises, the input context
  is already closed, one scheduled node has ended and one is still scheduled.
\<close>

definition busySession :: session where
  "busySession =
     initialSession
       \<lparr>activeCall := True,
        audioContextsRef := Some (Closed, Running),
        nextStartTimeRef := 7,
        sourcesRef := [0, 1],
        sessionRef := Some \<lparr>connected = True, closeRaises = True\<rparr>,
        streamRef := Some [Live],
        nodes := [0 \<mapsto> \<lparr>startAt = 5, duration = 1, state_node = Ended\<rparr>,
                  1 \<mapsto> \<lparr>startAt = 6, duration = 1, state_node = Scheduled\<rparr>],
        nodeCount := 2\<rparr>"

text \<open>
  Three payloads on the initial state: the second arrives while the first is still
  playing, the third long after the second has ended.
\<close>

definition exampleBuffers :: "(clock \<times> string) list" where
  "exampleBuffers =
     [(\<lparr>now = 1000, currentTime = 5\<rparr>, ''AAAA''),
      (\<lparr>now = 1001, currentTime = 6\<rparr>, ''AA''),
      (\<lparr>now = 1015, currentTime = 20\<rparr>, ''A'')]"

text \<open>Four fragments: the citizen twice, the assistant, the citizen again.\<close>

definition exampleFragments :: "fragment list" where
  "exampleFragments =
     [\<lparr>frag_sender = User, frag_time = 1000, frag_text = ''Hel''\<rparr>,
      \<lparr>frag_sender = User, frag_time = 1001, frag_text = ''lo''\<rparr>,
      \<lparr>frag_sender = Ai, frag_time = 1002, frag_text = ''Hi''\<rparr>,
      \<lparr>frag_sender = User, frag_time = 1003, frag_text = ''Bye''\<rparr>]"

subsection \<open>Relations used in the proofs\<close>

text \<open>
  The complaint sequence of \<open>s'\<close> is that of \<open>s\<close> with records put in front, each
  with equal \<^verbatim>\<open>id\<close> and \<^verbatim>\<open>callReference\<close>.
\<close>

definition dbExt :: "session \<Rightarrow> session \<Rightarrow> bool" where
  "dbExt s s' =
     (\<exists>created. dbComplaints s' = created @ dbComplaints s \<and>
        list_all (\<lambda>c. id_cd c = callReference c) created)"

section \<open>Properties\<close>

subsection \<open>Rounding to a double\<close>

lemma ulp_pos: "0 < ulp x"
  by (simp add: ulp_def)




lemma expo_eq:
  assumes "0 < x" "2 powr of_int e \<le> x" "x < 2 powr (of_int e + 1)" "- 1022 \<le> e"
  shows "expo x = e"
proof -
  have "of_int e \<le> log 2 x" using assms(1,2) by (simp add: le_log_iff)
  moreover have "log 2 x < of_int e + 1" using assms(1,3) by (simp add: log_less_iff)
  ultimately have "\<lfloor>log 2 x\<rfloor> = e" by linarith
  then show ?thesis using assms(4) by (simp add: expo_def)
qed



lemma roundHalfEven_int: "roundHalfEven (of_int k) = k"
  by (simp add: roundHalfEven_def)







lemma toDouble_pos: "0 < x \<Longrightarrow> toDouble x = of_int (roundHalfEven (x / ulp x)) * ulp x"
  by (simp add: toDouble_def)





lemma toDouble_exact:
  assumes "0 < a" "a = of_int k * ulp a"
  shows "toDouble a = a"
proof -
  have "a / ulp a = of_int k" using assms(2) ulp_pos [of a] by (simp add: nonzero_divide_eq_eq)
  then show ?thesis using assms by (simp add: toDouble_pos roundHalfEven_int)
qed




lemma double_const:
  assumes "0 < a" "- 1022 \<le> e" "2 powr of_int e \<le> a" "a < 2 powr (of_int e + 1)"
    and "a = of_int k * 2 powr (of_int e - 52)"
  shows "ulp a = 2 powr (of_int e - 52) \<and> a = of_int k * ulp a \<and> toDouble a = a"
proof -
  have "expo a = e" using assms(1,3,4,2) by (rule expo_eq)
  then have u: "ulp a = 2 powr (of_int e - 52)" by (simp add: ulp_def)
  have r: "a = of_int k * ulp a" by (subst u) (rule assms(5))
  from assms(1) r have "toDouble a = a" by (rule toDouble_exact)
  with u r show ?thesis by blast
qed











lemma double_450000: "toDouble 450000 = 450000"
proof -
  have "ulp 450000 = 2 powr (of_int 18 - 52) \<and> 450000 = of_int 7730941132800000 * ulp 450000 \<and>
        toDouble 450000 = 450000"
    by (rule double_const) (simp_all add: powr_neg_numeral)
  then show ?thesis by simp
qed

lemma double_550000: "toDouble 550000 = 550000"
proof -
  have "ulp 550000 = 2 powr (of_int 19 - 52) \<and> 550000 = of_int 4724464025600000 * ulp 550000 \<and>
        toDouble 550000 = 550000"
    by (rule double_const) (simp_all add: powr_neg_numeral)
  then show ?thesis by simp
qed

subsection \<open>Evaluating the concrete inputs\<close>

lemma callIdOf_half: "callIdOf (1 / 2) = ''VMC-550000''"
  by (simp add: callIdOf_def fadd_def fmul_def double_450000 double_550000 js_int_string_def
      string_of_nat.simps digit_char_def)






lemmas handler_defs =
  run_def step_def onmessage_def andThen_def audioBranch_def transcriptionBranches_def
  toolCallBranch_def interruptedBranch_def base64AudioOf_def onToolCall_def
  dispatchFunctionCall_def registerComplaint_def disconnectCall_def setTimeoutStopCall_def
  setDbComplaints_def dbUpdater_def addLog_def sendToolResponse_def outcome_state_def
  newComplaint_def Let_def

lemmas example_defs =
  examplePlatform_def fullStorePlatform_def exampleClock_def registerCall_def
  disconnectCallFc_def unknownCall_def waterLeakArgs_def initialSession_def halfDraw_def
  acceptAll_def acceptNone_def stampOf_def decodeByLength_def toolCallMessage_def
  transcriptionMessage_def audioMessage_def interruptedMessage_def noContent_def

subsection \<open>Teardown and the complaint sequence\<close>

lemma try_stop_nodes: "try_stop P s n = s\<lparr>nodes := try_stop_tbl P (nodes s) n\<rparr>"
  by (simp add: try_stop_def try_stop_tbl_def split: sum.splits)

lemma foldl_try_stop: "foldl (try_stop P) s xs = s\<lparr>nodes := foldl (try_stop_tbl P) (nodes s) xs\<rparr>"
  by (induction xs arbitrary: s) (simp_all add: try_stop_nodes)

lemma stopSources_eq:
  "stopSources P s = s\<lparr>nodes := foldl (try_stop_tbl P) (nodes s) (sourcesRef s), sourcesRef := []\<rparr>"
  by (simp add: stopSources_def foldl_try_stop)

lemma stopCall_eq:
  "stopCall P s =
     s\<lparr>activeCall := False, sessionRef := None,
       nodes := foldl (try_stop_tbl P) (nodes s) (sourcesRef s), sourcesRef := [],
       nextStartTimeRef := 0, streamRef := None, audioContextsRef := None,
       logs := ''Session safely terminated.'' # take 20 (logs s),
       formerSessions := formerSessions s @
         (case sessionRef s of
            None \<Rightarrow> []
          | Some h \<Rightarrow> (case session_close h of Inl e \<Rightarrow> [h] | Inr h' \<Rightarrow> [h'])),
       formerStreams := formerStreams s @
         (case streamRef s of None \<Rightarrow> [] | Some tracks \<Rightarrow> [map track_stop tracks]),
       formerContexts := formerContexts s @
         (case audioContextsRef s of None \<Rightarrow> [] | Some c \<Rightarrow> [closeContexts c])\<rparr>"
  by (simp add: stopCall_def Let_def stopSources_eq addLog_def split: option.splits sum.splits)

lemma dbExt_refl: "dbExt s s"
  by (simp add: dbExt_def)

lemma dbExt_same: "dbComplaints s' = dbComplaints s \<Longrightarrow> dbExt s s'"
  by (simp add: dbExt_def)

lemma dbExt_trans: "dbExt s s' \<Longrightarrow> dbExt s' s'' \<Longrightarrow> dbExt s s''"
  by (auto simp: dbExt_def)

lemma db_stopCall: "dbComplaints (stopCall P s) = dbComplaints s"
  by (simp add: stopCall_eq)

lemma db_foldl_stopCall: "dbComplaints (foldl (\<lambda>s' d. stopCall P s') s ds) = dbComplaints s"
  by (induction ds arbitrary: s) (simp_all add: db_stopCall)

lemma db_fireTimers: "dbComplaints (fireTimers P t s) = dbComplaints s"
  by (simp add: fireTimers_def db_foldl_stopCall)

lemma db_naturalCompletion: "dbComplaints (naturalCompletion n s) = dbComplaints s"
  by (simp add: naturalCompletion_def onended_def split: option.splits)

lemma db_onTranscription: "dbComplaints (onTranscription w clk t s) = dbComplaints s"
  by (simp add: onTranscription_def)

lemma db_scheduleAudio: "dbComplaints (outcome_state (scheduleAudio P clk b s)) = dbComplaints s"
  by (simp add: scheduleAudio_def outcome_state_def Let_def split: sum.splits)

lemma db_onInterrupted: "dbComplaints (onInterrupted P s) = dbComplaints s"
  by (simp add: onInterrupted_def stopSources_eq)

lemma dbExt_setDbComplaints:
  "id_cd c = callReference c \<Longrightarrow> dbExt s (setDbComplaints P c s)"
  by (auto simp: setDbComplaints_def dbUpdater_def Let_def dbExt_def)

lemma newComplaint_ids: "id_cd (newComplaint callId stamp args) = callReference (newComplaint callId stamp args)"
  by (simp add: newComplaint_def)

lemma dbExt_registerComplaint: "dbExt s (outcome_state (registerComplaint P clk fc s))"
proof (cases "args_fc fc")
  case None
  then show ?thesis
    by (simp add: registerComplaint_def outcome_state_def Let_def dbExt_same)
next
  case (Some args)
  let ?c = "newComplaint (callIdOf (mathRandom P (draws s))) (toLocaleString P (now clk)) args"
  let ?s1 = "s\<lparr>draws := Suc (draws s)\<rparr>"
  have a: "dbExt s ?s1" by (simp add: dbExt_same)
  have b: "dbExt ?s1 (setDbComplaints P ?c ?s1)"
    by (rule dbExt_setDbComplaints) (rule newComplaint_ids)
  have c: "dbComplaints (outcome_state (registerComplaint P clk fc s)) = dbComplaints (setDbComplaints P ?c ?s1)"
    using Some by (simp add: registerComplaint_def outcome_state_def Let_def addLog_def sendToolResponse_def)
  from dbExt_trans [OF a b] show ?thesis
    using c by (simp add: dbExt_def)
qed

lemma dbExt_dispatchFunctionCall: "dbExt s (outcome_state (dispatchFunctionCall P clk fc s))"
  by (simp add: dispatchFunctionCall_def dbExt_registerComplaint)
     (simp add: outcome_state_def dbExt_same disconnectCall_def setTimeoutStopCall_def addLog_def)

lemma dbExt_dispatchAll: "dbExt s (outcome_state (dispatchAll P clk fcs s))"
proof (induction fcs arbitrary: s)
  case Nil
  then show ?case by (simp add: outcome_state_def dbExt_refl)
next
  case (Cons fc fcs)
  show ?case
  proof (cases "dispatchFunctionCall P clk fc s")
    case (Inl e)
    then show ?thesis
      using dbExt_dispatchFunctionCall [of s P clk fc] by simp
  next
    case (Inr s')
    then have "dbExt s s'"
      using dbExt_dispatchFunctionCall [of s P clk fc] by (simp add: outcome_state_def)
    then show ?thesis
      using Inr Cons.IH [of s'] by (simp add: dbExt_trans)
  qed
qed

lemma dbExt_onToolCall: "dbExt s (outcome_state (onToolCall P clk tc s))"
  by (cases "functionCalls tc") (simp_all add: onToolCall_def dbExt_dispatchAll, simp add: outcome_state_def dbExt_refl)


lemma dbExt_andThen:
  assumes "dbExt s (outcome_state r)" and "\<And>s'. dbExt s' (outcome_state (f s'))"
  shows "dbExt s (outcome_state (andThen r f))"
proof (cases r)
  case (Inl e)
  then show ?thesis using assms(1) by (simp add: andThen_def)
next
  case (Inr s')
  then have "dbExt s s'" using assms(1) by (simp add: outcome_state_def)
  then show ?thesis using Inr assms(2) [of s'] by (simp add: andThen_def dbExt_trans)
qed

lemma db_transcriptionBranches: "dbComplaints (transcriptionBranches clk m s) = dbComplaints s"
  by (simp add: transcriptionBranches_def Let_def db_onTranscription split: option.splits)

lemma db_audioBranch: "dbComplaints (outcome_state (audioBranch P clk m s)) = dbComplaints s"
  by (simp add: audioBranch_def db_scheduleAudio split: sum.splits option.splits)
     (simp add: outcome_state_def)

lemma dbExt_toolCallBranch: "dbExt s (outcome_state (toolCallBranch P clk m s))"
  by (simp add: toolCallBranch_def dbExt_onToolCall split: option.splits)
     (simp add: outcome_state_def dbExt_refl)

lemma db_interruptedBranch: "dbComplaints (interruptedBranch P m s) = dbComplaints s"
  by (simp add: interruptedBranch_def db_onInterrupted split: option.splits)

lemma dbExt_onmessage: "dbExt s (outcome_state (onmessage P clk m s))"
  unfolding onmessage_def
proof (intro dbExt_andThen)
  show "dbExt s (outcome_state (audioBranch P clk m (transcriptionBranches clk m s)))"
    by (rule dbExt_same) (simp add: db_audioBranch db_transcriptionBranches)
  show "dbExt s' (outcome_state (toolCallBranch P clk m s'))" for s'
    by (rule dbExt_toolCallBranch)
  show "dbExt s' (outcome_state (Inr (interruptedBranch P m s')))" for s'
    by (rule dbExt_same) (simp add: outcome_state_def db_interruptedBranch)
qed

lemma dbExt_render: "dbExt s s' \<Longrightarrow> dbExt s (render s s')"
  by (simp add: render_def lastCommitted_def dbExt_same)

lemma dbExt_step: "dbExt s (step P s ev)"
  by (cases ev)
     (simp_all add: step_def dbExt_render dbExt_onmessage dbExt_same db_naturalCompletion
        db_fireTimers)

lemma dbExt_run: "dbExt s (run P evs s)"
proof (induction evs arbitrary: s)
  case Nil
  then show ?case by (simp add: run_def dbExt_refl)
next
  case (Cons ev evs)
  have "dbExt s (step P s ev)" by (rule dbExt_step)
  moreover have "dbExt (step P s ev) (run P evs (step P s ev))" by (rule Cons.IH)
  ultimately show ?case by (simp add: run_def dbExt_trans)
qed

subsection \<open>Identity fields of a complaint record\<close>

text \<open>
  Claim C10. A record built by \<^verbatim>\<open>register_complaint\<close> has equal \<^verbatim>\<open>id\<close> and
  \<^verbatim>\<open>callReference\<close>; and whatever events a session processes, from whatever state,
  the records it puts in front of the complaint sequence all have the two fields equal.
\<close>

theorem complaint_id_equals_callReference:
  "id_cd (newComplaint callId stamp args) = callReference (newComplaint callId stamp args) \<and>
   (\<exists>created. dbComplaints (run P evs s) = created @ dbComplaints s \<and>
      list_all (\<lambda>c. id_cd c = callReference c) created)"
  using dbExt_run [of s P evs] by (simp add: newComplaint_ids dbExt_def)

theorem complaint_id_equals_callReference_witness:
  "id_cd (newComplaint ''VMC-550000'' ''1000'' waterLeakArgs) = ''VMC-550000'' \<and>
   callReference (newComplaint ''VMC-550000'' ''1000'' waterLeakArgs) = ''VMC-550000'' \<and>
   (\<exists>created.
      dbComplaints (run examplePlatform [Message exampleClock (toolCallMessage [registerCall])]
        initialSession) = created @ [] \<and>
      list_all (\<lambda>c. id_cd c = callReference c) created \<and> map id_cd created = [''VMC-550000''])"
proof -
  have "map id_cd (dbComplaints (run examplePlatform
          [Message exampleClock (toolCallMessage [registerCall])] initialSession)) = [''VMC-550000'']"
    by (simp add: handler_defs example_defs callIdOf_half render_def)
  then show ?thesis
    using complaint_id_equals_callReference
      [of "''VMC-550000''" "''1000''" waterLeakArgs examplePlatform
          "[Message exampleClock (toolCallMessage [registerCall])]" initialSession]
    by (auto simp: newComplaint_def initialSession_def)
qed

subsection \<open>Teardown\<close>

lemma released_stopCall: "released (stopCall P s)"
  by (simp add: released_def stopCall_eq)

lemma timers_stopCall: "timers (stopCall P s) = timers s"
  by (simp add: stopCall_eq)

lemma timers_foldl_stopCall: "timers (foldl (\<lambda>s' d. stopCall P s') s ds) = timers s"
  by (induction ds arbitrary: s) (simp_all add: timers_stopCall)

lemma timers_fireTimers: "timers (fireTimers P t s) = filter (\<lambda>d. \<not> d \<le> t) (timers s)"
  by (simp add: fireTimers_def timers_foldl_stopCall)

lemma released_foldl_stopCall: "ds \<noteq> [] \<Longrightarrow> released (foldl (\<lambda>s' d. stopCall P s') s ds)"
  by (induction ds rule: rev_induct) (simp_all add: released_stopCall)

lemma closeContexts_cases:
  "closeContexts c = (if c = (Closed, Running) then (Closed, Running) else (Closed, Closed))"
  by (cases c; cases "fst c"; cases "snd c") (simp_all add: closeContexts_def ctx_close_def)

lemma stopCall_releases_otherwise:
  assumes "devicesReleased s" "audioContextsRef s \<noteq> Some (Closed, Running)"
  shows "devicesReleased (stopCall P s)"
  using assms
  by (auto simp: devicesReleased_def stopCall_eq closeContexts_cases track_stop_def list_all_iff
      split: option.splits)

text \<open>
  Claim C6 says that after \<^verbatim>\<open>stopCall\<close>, from any state, the microphone and the audio
  devices are released. At the state in which the input context is already closed and
  the output context is running, \<^verbatim>\<open>stopCall\<close> returns with the session inactive, every
  handle null and the microphone track ended, but with the output context still
  running and no handle left to it: \<^verbatim>\<open>close()\<close> of the input context raises inside the
  \<^verbatim>\<open>try\<close> block that both \<^verbatim>\<open>close()\<close> calls share, so \<^verbatim>\<open>close()\<close> of the output context
  is never reached.
\<close>

theorem stopCall_leaves_output_context_running:
  "audioContextsRef busySession = Some (Closed, Running) \<and>
   released (stopCall examplePlatform busySession) \<and>
   formerStreams (stopCall examplePlatform busySession) = [[TrackEnded]] \<and>
   formerContexts (stopCall examplePlatform busySession) = [(Closed, Running)] \<and>
   \<not> devicesReleased (stopCall examplePlatform busySession)"
  by (simp add: released_def devicesReleased_def stopCall_eq busySession_def initialSession_def
      closeContexts_cases track_stop_def)

subsection \<open>The tool-call dispatcher\<close>

text \<open>
  Claim C8. A \<^verbatim>\<open>disconnect_call\<close> invocation handled at time \<open>now clk\<close> tears nothing
  down: the state is the old one with one timer added, due at \<open>now clk + 2000\<close>, and
  one line added to the log. When the timers are run before that time the armed
  timer stays pending (and with no other timer pending nothing happens at all); when
  they are run at or after it the timer is gone and \<^verbatim>\<open>stopCall\<close> has run.
\<close>

theorem disconnect_call_arms_delayed_teardown:
  assumes "name_fc fc = Some ''disconnect_call''"
  shows "dispatchFunctionCall P clk fc s = Inr (disconnectCall clk s) \<and>
         disconnectCall clk s =
           s\<lparr>logs := ''User requested closure. Ending call.'' # take 20 (logs s),
             timers := timers s @ [now clk + 2000]\<rparr> \<and>
         (t < now clk + 2000 \<longrightarrow>
            now clk + 2000 \<in> set (timers (fireTimers P t (disconnectCall clk s)))) \<and>
         (t < now clk + 2000 \<and> timers s = [] \<longrightarrow>
            fireTimers P t (disconnectCall clk s) = disconnectCall clk s) \<and>
         (now clk + 2000 \<le> t \<longrightarrow>
            now clk + 2000 \<notin> set (timers (fireTimers P t (disconnectCall clk s))) \<and>
            released (fireTimers P t (disconnectCall clk s))) \<and>
         (now clk + 2000 \<le> t \<and> timers s = [] \<longrightarrow>
            fireTimers P t (disconnectCall clk s) =
              stopCall P ((disconnectCall clk s)\<lparr>timers := []\<rparr>))"
proof -
  let ?s' = "disconnectCall clk s"
  have e: "?s' = s\<lparr>logs := ''User requested closure. Ending call.'' # take 20 (logs s),
                    timers := timers s @ [now clk + 2000]\<rparr>"
    by (simp add: disconnectCall_def setTimeoutStopCall_def addLog_def)
  have t: "timers ?s' = timers s @ [now clk + 2000]"
    by (simp add: e)
  have d: "dispatchFunctionCall P clk fc s = Inr ?s'"
    using assms by (simp add: dispatchFunctionCall_def)
  have "now clk + 2000 \<in> set (timers (fireTimers P t ?s'))" if "t < now clk + 2000"
    using that by (simp add: timers_fireTimers t)
  moreover have "fireTimers P t ?s' = ?s'" if "t < now clk + 2000" "timers s = []"
    using that by (simp add: fireTimers_def t)
  moreover have "now clk + 2000 \<notin> set (timers (fireTimers P t ?s'))" if "now clk + 2000 \<le> t"
    using that by (simp add: timers_fireTimers t)
  moreover have "released (fireTimers P t ?s')" if "now clk + 2000 \<le> t"
    unfolding fireTimers_def using that by (intro released_foldl_stopCall) (simp add: t)
  moreover have "fireTimers P t ?s' = stopCall P (?s'\<lparr>timers := []\<rparr>)"
    if "now clk + 2000 \<le> t" "timers s = []"
    using that by (simp add: fireTimers_def t)
  ultimately show ?thesis
    using d e by simp
qed

theorem disconnect_call_arms_delayed_teardown_witness:
  "dispatchFunctionCall examplePlatform exampleClock disconnectCallFc busySession =
     Inr (disconnectCall exampleClock busySession) \<and>
   activeCall (disconnectCall exampleClock busySession) \<and>
   sessionRef (disconnectCall exampleClock busySession) = sessionRef busySession \<and>
   timers (disconnectCall exampleClock busySession) = [3000] \<and>
   fireTimers examplePlatform 2999 (disconnectCall exampleClock busySession) =
     disconnectCall exampleClock busySession \<and>
   3000 \<notin> set (timers (fireTimers examplePlatform 3000 (disconnectCall exampleClock busySession))) \<and>
   released (fireTimers examplePlatform 3000 (disconnectCall exampleClock busySession))"
proof -
  let ?s' = "disconnectCall exampleClock busySession"
  have n: "name_fc disconnectCallFc = Some ''disconnect_call''"
    by (simp add: disconnectCallFc_def)
  have c: "now exampleClock + 2000 = 3000" "timers busySession = []" "activeCall busySession"
    by (simp_all add: exampleClock_def busySession_def initialSession_def)
  have lt: "2999 < now exampleClock + 2000" and ge: "now exampleClock + 2000 \<le> 3000"
    by (simp_all add: c)
  note A = disconnect_call_arms_delayed_teardown
             [OF n, of examplePlatform exampleClock busySession 2999]
  note B = disconnect_call_arms_delayed_teardown
             [OF n, of examplePlatform exampleClock busySession 3000]
  from A have a1: "dispatchFunctionCall examplePlatform exampleClock disconnectCallFc busySession = Inr ?s'"
    by (rule conjunct1)
  from A lt c(2) have a2: "fireTimers examplePlatform 2999 ?s' = ?s'"
    by blast
  from B ge have b: "now exampleClock + 2000 \<notin> set (timers (fireTimers examplePlatform 3000 ?s'))"
    "released (fireTimers examplePlatform 3000 ?s')"
    by blast+
  have e: "activeCall ?s'" "sessionRef ?s' = sessionRef busySession" "timers ?s' = [3000]"
    by (simp_all add: disconnectCall_def setTimeoutStopCall_def addLog_def c)
  show ?thesis
    using a1 a2 b e by (simp add: c)
qed

subsection \<open>The reference ID\<close>










subsection \<open>What one invocation does\<close>



lemma sent_setDbComplaints: "sent (setDbComplaints P c s) = sent s"
  by (simp add: setDbComplaints_def split: sum.splits prod.splits)

lemma registerComplaint_sent:
  assumes "args_fc fc = Some args"
  shows "\<exists>s'. registerComplaint P clk fc s = Inr s' \<and>
     sent s' = sent s @ [\<lparr>id_fr = id_fc fc, name_fr = name_fc fc,
        result_fr = ''Success. Reference ID provided to user is '' @ callIdOf (mathRandom P (draws s))\<rparr>]"
  using assms
  by (simp add: registerComplaint_def Let_def addLog_def sendToolResponse_def sent_setDbComplaints)

lemma onmessage_toolCallMessage: "onmessage P clk (toolCallMessage fcs) s = dispatchAll P clk fcs s"
  by (simp add: onmessage_def toolCallMessage_def transcriptionBranches_def audioBranch_def
      base64AudioOf_def toolCallBranch_def onToolCall_def interruptedBranch_def andThen_def
      split: sum.splits)

lemma dispatchAll_single: "dispatchAll P clk [fc] s = dispatchFunctionCall P clk fc s"
  by (simp split: sum.splits)

text \<open>
  Claim C9, as amended. An invocation whose name is neither \<^verbatim>\<open>register_complaint\<close> nor
  \<^verbatim>\<open>disconnect_call\<close> (or that has no name) is skipped: the handler returns without an
  error and the whole state is as before, the log included, so nothing is logged and
  no function-result is sent.
\<close>

theorem unknown_function_call_ignored:
  assumes "name_fc fc \<noteq> Some ''register_complaint''" and "name_fc fc \<noteq> Some ''disconnect_call''"
  shows "dispatchFunctionCall P clk fc s = Inr s \<and> onmessage P clk (toolCallMessage [fc]) s = Inr s"
  using assms by (simp add: onmessage_toolCallMessage dispatchFunctionCall_def)

theorem unknown_function_call_ignored_witness:
  "name_fc unknownCall = Some ''lookup_status'' \<and>
   dispatchFunctionCall examplePlatform exampleClock unknownCall busySession = Inr busySession \<and>
   onmessage examplePlatform exampleClock (toolCallMessage [unknownCall]) busySession = Inr busySession"
proof -
  have "name_fc unknownCall \<noteq> Some ''register_complaint''" "name_fc unknownCall \<noteq> Some ''disconnect_call''"
    by (simp_all add: unknownCall_def)
  from unknown_function_call_ignored [OF this] show ?thesis
    by (simp add: unknownCall_def)
qed

text \<open>
  Claim C9 as stated says the ignored event is logged. For the invocation
  \<^verbatim>\<open>lookup_status\<close> the log after the handler is the log before it.
\<close>

theorem unknown_function_call_not_logged:
  "logs (outcome_state (onmessage examplePlatform exampleClock (toolCallMessage [unknownCall]) initialSession))
     = logs initialSession"
  by (simp add: onmessage_toolCallMessage dispatchFunctionCall_def unknownCall_def outcome_state_def)

lemma dispatchFunctionCall_sent:
  assumes "name_fc fc = Some ''register_complaint'' \<longrightarrow> args_fc fc \<noteq> None"
  shows "\<exists>s' rs. dispatchFunctionCall P clk fc s = Inr s' \<and> sent s' = sent s @ rs \<and>
     map id_fr rs = map id_fc (filter (\<lambda>fc. name_fc fc = Some ''register_complaint'') [fc]) \<and>
     list_all (\<lambda>r. name_fr r = Some ''register_complaint'') rs"
proof (cases "name_fc fc = Some ''register_complaint''")
  case True
  with assms obtain args where "args_fc fc = Some args" by auto
  from registerComplaint_sent [OF this, of P clk s] show ?thesis
    using True by (auto simp: dispatchFunctionCall_def)
next
  case False
  then show ?thesis
    by (simp add: dispatchFunctionCall_def disconnectCall_def setTimeoutStopCall_def addLog_def)
qed

text \<open>
  Claim C5, as amended. For a tool-call batch in which every \<^verbatim>\<open>register_complaint\<close>
  invocation carries an argument bag, the handler returns and has sent exactly one
  function-result for each \<^verbatim>\<open>register_complaint\<close> invocation, in batch order, each
  with the identifier of its invocation, and none for any other invocation
  (\<^verbatim>\<open>disconnect_call\<close> or an unknown name).
\<close>

theorem one_result_per_register_complaint:
  assumes "\<forall>fc \<in> set fcs. name_fc fc = Some ''register_complaint'' \<longrightarrow> args_fc fc \<noteq> None"
  shows "\<exists>s' rs. onmessage P clk (toolCallMessage fcs) s = Inr s' \<and> sent s' = sent s @ rs \<and>
     map id_fr rs = map id_fc (filter (\<lambda>fc. name_fc fc = Some ''register_complaint'') fcs) \<and>
     list_all (\<lambda>r. name_fr r = Some ''register_complaint'') rs"
  unfolding onmessage_toolCallMessage using assms
proof (induction fcs arbitrary: s)
  case Nil
  then show ?case by simp
next
  case (Cons fc fcs)
  from Cons.prems have "name_fc fc = Some ''register_complaint'' \<longrightarrow> args_fc fc \<noteq> None" by simp
  from dispatchFunctionCall_sent [OF this, of P clk s]
  obtain s1 rs1 where 1: "dispatchFunctionCall P clk fc s = Inr s1" "sent s1 = sent s @ rs1"
    "map id_fr rs1 = map id_fc (filter (\<lambda>fc. name_fc fc = Some ''register_complaint'') [fc])"
    "list_all (\<lambda>r. name_fr r = Some ''register_complaint'') rs1"
    by blast
  from Cons.prems have "\<forall>fc \<in> set fcs. name_fc fc = Some ''register_complaint'' \<longrightarrow> args_fc fc \<noteq> None"
    by simp
  from Cons.IH [OF this, of s1]
  obtain s2 rs2 where 2: "dispatchAll P clk fcs s1 = Inr s2" "sent s2 = sent s1 @ rs2"
    "map id_fr rs2 = map id_fc (filter (\<lambda>fc. name_fc fc = Some ''register_complaint'') fcs)"
    "list_all (\<lambda>r. name_fr r = Some ''register_complaint'') rs2"
    by blast
  have "dispatchAll P clk (fc # fcs) s = Inr s2" using 1(1) 2(1) by simp
  moreover have "sent s2 = sent s @ (rs1 @ rs2)" using 1(2) 2(2) by simp
  moreover have "map id_fr (rs1 @ rs2) = map id_fc (filter (\<lambda>fc. name_fc fc = Some ''register_complaint'') (fc # fcs))"
    using 1(3) 2(3) by (simp split: if_splits)
  moreover have "list_all (\<lambda>r. name_fr r = Some ''register_complaint'') (rs1 @ rs2)"
    using 1(4) 2(4) by simp
  ultimately show ?case by blast
qed

theorem one_result_per_register_complaint_witness:
  "\<exists>s' rs.
     onmessage examplePlatform exampleClock
       (toolCallMessage [registerCall, disconnectCallFc, unknownCall, registerCall\<lparr>id_fc := Some ''fc-4''\<rparr>])
       initialSession = Inr s' \<and>
     sent s' = rs \<and> map id_fr rs = [Some ''fc-1'', Some ''fc-4'']"
proof -
  let ?fcs = "[registerCall, disconnectCallFc, unknownCall, registerCall\<lparr>id_fc := Some ''fc-4''\<rparr>]"
  have h: "\<forall>fc \<in> set ?fcs. name_fc fc = Some ''register_complaint'' \<longrightarrow> args_fc fc \<noteq> None"
    by (simp add: registerCall_def disconnectCallFc_def unknownCall_def)
  have f: "map id_fc (filter (\<lambda>fc. name_fc fc = Some ''register_complaint'') ?fcs) =
             [Some ''fc-1'', Some ''fc-4'']"
    by (simp add: registerCall_def disconnectCallFc_def unknownCall_def)
  from one_result_per_register_complaint [OF h, of examplePlatform exampleClock initialSession]
  show ?thesis
    unfolding f by (auto simp: initialSession_def)
qed

text \<open>
  Claim C5 as stated promises a function-result for a \<^verbatim>\<open>disconnect_call\<close> invocation
  too. For a batch of one such invocation the handler returns and nothing was sent.
  And for a \<^verbatim>\<open>register_complaint\<close> invocation that has no argument bag, reading the
  first field raises and nothing was sent either.
\<close>

theorem disconnect_call_gets_no_result:
  "\<not> raised (onmessage examplePlatform exampleClock (toolCallMessage [disconnectCallFc]) initialSession) \<and>
   sent (outcome_state
     (onmessage examplePlatform exampleClock (toolCallMessage [disconnectCallFc]) initialSession)) = [] \<and>
   raised (onmessage examplePlatform exampleClock
     (toolCallMessage [registerCall\<lparr>args_fc := None\<rparr>]) initialSession) \<and>
   sent (outcome_state (onmessage examplePlatform exampleClock
     (toolCallMessage [registerCall\<lparr>args_fc := None\<rparr>]) initialSession)) = []"
  by (simp add: onmessage_toolCallMessage dispatchFunctionCall_def disconnectCallFc_def
      disconnectCall_def setTimeoutStopCall_def addLog_def outcome_state_def raised_def
      initialSession_def registerCall_def registerComplaint_def Let_def)












subsection \<open>The playback scheduler\<close>

lemma try_stop_tbl_eq: "try_stop_tbl P tbl n = tbl(n := map_option stoppedNode (tbl n))"
  by (auto simp: try_stop_tbl_def node_stop_def stoppedNode_def fun_eq_iff
      split: option.splits node_state.splits)

lemma stoppedNode_idem: "stoppedNode (stoppedNode nd) = stoppedNode nd"
  by (simp add: stoppedNode_def)

lemma foldl_try_stop_tbl:
  "foldl (try_stop_tbl P) tbl xs m =
     (if m \<in> set xs then map_option stoppedNode (tbl m) else tbl m)"
proof (induction xs arbitrary: tbl)
  case Nil
  then show ?case by simp
next
  case (Cons x xs)
  have step: "try_stop_tbl P tbl x k = (if k = x then map_option stoppedNode (tbl x) else tbl k)" for k
    by (simp add: try_stop_tbl_eq)
  have "foldl (try_stop_tbl P) (tbl) (x # xs) m = foldl (try_stop_tbl P) (try_stop_tbl P tbl x) xs m"
    by simp
  also have "\<dots> = (if m \<in> set xs then map_option stoppedNode (try_stop_tbl P tbl x m)
                     else try_stop_tbl P tbl x m)"
    by (rule Cons.IH)
  also have "\<dots> = (if m \<in> set (x # xs) then map_option stoppedNode (tbl m) else tbl m)"
    by (simp add: step option.map_comp o_def stoppedNode_idem)
  finally show ?case .
qed

lemma nodes_onInterrupted:
  "nodes (onInterrupted P s) n =
     (if n \<in> set (sourcesRef s) then map_option stoppedNode (nodes s n) else nodes s n)"
  by (simp add: onInterrupted_def stopSources_eq foldl_try_stop_tbl)

lemma scheduleAudio_decoded:
  assumes "decodeAudioData P b = Inr d"
  shows "scheduleAudio P clk b s =
    Inr (s\<lparr>nextStartTimeRef := max (nextStartTimeRef s) (currentTime clk) + d,
           nodeCount := Suc (nodeCount s),
           nodes := (nodes s)(nodeCount s \<mapsto>
              \<lparr>startAt = max (nextStartTimeRef s) (currentTime clk), duration = d, state_node = Scheduled\<rparr>),
           sourcesRef := set_add (nodeCount s) (sourcesRef s)\<rparr>)"
  using assms by (simp add: scheduleAudio_def Let_def)

lemma onmessage_interruptedMessage: "onmessage P clk interruptedMessage s = Inr (onInterrupted P s)"
  by (simp add: onmessage_def interruptedMessage_def noContent_def transcriptionBranches_def
      audioBranch_def base64AudioOf_def toolCallBranch_def interruptedBranch_def andThen_def)

lemma onmessage_audioMessage:
  "b \<noteq> [] \<Longrightarrow> onmessage P clk (audioMessage b) s = scheduleAudio P clk b s"
  by (simp add: onmessage_def audioMessage_def noContent_def transcriptionBranches_def
      audioBranch_def base64AudioOf_def toolCallBranch_def interruptedBranch_def andThen_def
      split: sum.splits)

text \<open>
  Claim C4. A message that carries the interruption signal runs the interruption
  branch, after which the set of active sources is empty and the cursor is zero. Every
  node that was in the set and still scheduled is stopped; for a node in the set that
  had already ended or been stopped, \<^verbatim>\<open>stop()\<close> under \<^verbatim>\<open>try\<close> changes nothing and raises
  nothing, whether the engine's \<^verbatim>\<open>stop()\<close> raises there or not; nodes outside the set are
  untouched. An audio payload that arrives next, at an output clock reading that is
  not negative, starts at that clock reading, whatever the cursor was before the
  interruption.
\<close>

theorem interruption_stops_and_reanchors:
  "onmessage P clk interruptedMessage s = Inr (onInterrupted P s) \<and>
   sourcesRef (onInterrupted P s) = [] \<and>
   nextStartTimeRef (onInterrupted P s) = 0 \<and>
   (n \<in> set (sourcesRef s) \<and> nodes s n = Some nd \<and> state_node nd = Scheduled \<longrightarrow>
      nodes (onInterrupted P s) n = Some (nd\<lparr>state_node := Stopped\<rparr>)) \<and>
   (n \<in> set (sourcesRef s) \<and> nodes s n = Some nd \<and> state_node nd \<noteq> Scheduled \<longrightarrow>
      nodes (onInterrupted P s) n = Some nd \<and> try_stop P s n = s) \<and>
   (n \<notin> set (sourcesRef s) \<longrightarrow> nodes (onInterrupted P s) n = nodes s n) \<and>
   (0 \<le> currentTime clk' \<and> b \<noteq> [] \<and> decodeAudioData P b = Inr d \<longrightarrow>
      onmessage P clk' (audioMessage b) (onInterrupted P s) =
        Inr ((onInterrupted P s)
              \<lparr>nextStartTimeRef := currentTime clk' + d,
               nodeCount := Suc (nodeCount s),
               nodes := (nodes (onInterrupted P s))(nodeCount s \<mapsto>
                 \<lparr>startAt = currentTime clk', duration = d, state_node = Scheduled\<rparr>),
               sourcesRef := [nodeCount s]\<rparr>))"
proof -
  have a: "sourcesRef (onInterrupted P s) = []" "nextStartTimeRef (onInterrupted P s) = 0"
    "nodeCount (onInterrupted P s) = nodeCount s"
    by (simp_all add: onInterrupted_def stopSources_eq)
  have b: "nodes (onInterrupted P s) n = Some (nd\<lparr>state_node := Stopped\<rparr>)"
    if "n \<in> set (sourcesRef s)" "nodes s n = Some nd" "state_node nd = Scheduled"
    using that by (simp add: nodes_onInterrupted stoppedNode_def)
  have c: "nodes (onInterrupted P s) n = Some nd \<and> try_stop P s n = s"
    if "n \<in> set (sourcesRef s)" "nodes s n = Some nd" "state_node nd \<noteq> Scheduled"
  proof -
    have "stoppedNode nd = nd" using that(3) by (simp add: stoppedNode_def)
    then show ?thesis
      using that(1,2) by (simp add: nodes_onInterrupted try_stop_nodes try_stop_tbl_eq fun_upd_idem)
  qed
  have d: "nodes (onInterrupted P s) n = nodes s n" if "n \<notin> set (sourcesRef s)"
    using that by (simp add: nodes_onInterrupted)
  have e: "onmessage P clk' (audioMessage b) (onInterrupted P s) =
        Inr ((onInterrupted P s)
              \<lparr>nextStartTimeRef := currentTime clk' + d,
               nodeCount := Suc (nodeCount s),
               nodes := (nodes (onInterrupted P s))(nodeCount s \<mapsto>
                 \<lparr>startAt = currentTime clk', duration = d, state_node = Scheduled\<rparr>),
               sourcesRef := [nodeCount s]\<rparr>)"
    if "0 \<le> currentTime clk'" "b \<noteq> []" "decodeAudioData P b = Inr d"
    using that by (simp add: onmessage_audioMessage scheduleAudio_decoded a set_add_def max_def)
  show ?thesis
    using a(1,2) b c d e by (simp add: onmessage_interruptedMessage)
qed

theorem interruption_stops_and_reanchors_witness:
  "nextStartTimeRef busySession = 7 \<and> sourcesRef busySession = [0, 1] \<and>
   onmessage examplePlatform exampleClock interruptedMessage busySession =
     Inr (onInterrupted examplePlatform busySession) \<and>
   sourcesRef (onInterrupted examplePlatform busySession) = [] \<and>
   nextStartTimeRef (onInterrupted examplePlatform busySession) = 0 \<and>
   nodes (onInterrupted examplePlatform busySession) 1 =
     Some \<lparr>startAt = 6, duration = 1, state_node = Stopped\<rparr> \<and>
   nodes (onInterrupted examplePlatform busySession) 0 =
     Some \<lparr>startAt = 5, duration = 1, state_node = Ended\<rparr> \<and>
   try_stop examplePlatform busySession 0 = busySession \<and>
   nodes (outcome_state (onmessage examplePlatform exampleClock (audioMessage ''AAAA'')
            (onInterrupted examplePlatform busySession))) 2 =
     Some \<lparr>startAt = 5, duration = 4, state_node = Scheduled\<rparr>"
proof -
  have s: "nextStartTimeRef busySession = 7" "sourcesRef busySession = [0, 1]"
    "nodeCount busySession = 2"
    "nodes busySession 0 = Some \<lparr>startAt = 5, duration = 1, state_node = Ended\<rparr>"
    "nodes busySession 1 = Some \<lparr>startAt = 6, duration = 1, state_node = Scheduled\<rparr>"
    by (simp_all add: busySession_def initialSession_def)
  have p: "0 \<le> currentTime exampleClock" "currentTime exampleClock = 5"
    "decodeAudioData examplePlatform ''AAAA'' = Inr 4"
    by (simp_all add: exampleClock_def examplePlatform_def decodeByLength_def)
  note A = interruption_stops_and_reanchors
    [where P = examplePlatform and clk = exampleClock and s = busySession and n = 1
       and nd = "\<lparr>startAt = 6, duration = 1, state_node = Scheduled\<rparr>"
       and clk' = exampleClock and b = "''AAAA''" and d = 4]
  note B = interruption_stops_and_reanchors
    [where P = examplePlatform and clk = exampleClock and s = busySession and n = 0
       and nd = "\<lparr>startAt = 5, duration = 1, state_node = Ended\<rparr>"
       and clk' = exampleClock and b = "''AAAA''" and d = 4]
  from A have 1: "onmessage examplePlatform exampleClock interruptedMessage busySession =
     Inr (onInterrupted examplePlatform busySession)"
    "sourcesRef (onInterrupted examplePlatform busySession) = []"
    "nextStartTimeRef (onInterrupted examplePlatform busySession) = 0"
    by blast+
  from A s have 2: "nodes (onInterrupted examplePlatform busySession) 1 =
     Some \<lparr>startAt = 6, duration = 1, state_node = Stopped\<rparr>"
    by simp
  from B s have 3: "nodes (onInterrupted examplePlatform busySession) 0 =
     Some \<lparr>startAt = 5, duration = 1, state_node = Ended\<rparr>"
    "try_stop examplePlatform busySession 0 = busySession"
    by simp_all
  from A p s(3) have 4: "nodes (outcome_state (onmessage examplePlatform exampleClock (audioMessage ''AAAA'')
            (onInterrupted examplePlatform busySession))) 2 =
     Some \<lparr>startAt = 5, duration = 4, state_node = Scheduled\<rparr>"
    by (simp add: outcome_state_def)
  show ?thesis
    using s(1,2) 1 2 3 4 by simp
qed

lemma scheduleAudio_returns:
  assumes "scheduleAudio P clk b s = Inr s'"
  obtains d where "decodeAudioData P b = Inr d"
    and "s' = s\<lparr>nextStartTimeRef := max (nextStartTimeRef s) (currentTime clk) + d,
           nodeCount := Suc (nodeCount s),
           nodes := (nodes s)(nodeCount s \<mapsto>
              \<lparr>startAt = max (nextStartTimeRef s) (currentTime clk), duration = d, state_node = Scheduled\<rparr>),
           sourcesRef := set_add (nodeCount s) (sourcesRef s)\<rparr>"
proof (cases "decodeAudioData P b")
  case (Inl e)
  then show ?thesis using assms by (simp add: scheduleAudio_def Let_def)
next
  case (Inr d)
  then show ?thesis using assms that by (simp add: scheduleAudio_decoded)
qed

lemma set_set_add: "set (set_add n xs) = insert n (set xs)"
  by (auto simp: set_add_def)

lemma nodesFrom_nth:
  "length (nodesFrom tbl k n) = n \<Longrightarrow> i < n \<Longrightarrow> tbl (k + i) = Some (nodesFrom tbl k n ! i)"
proof (induction n arbitrary: k i)
  case 0
  then show ?case by simp
next
  case (Suc n)
  from Suc.prems(1) obtain nd where nd: "tbl k = Some nd"
    by (cases "tbl k") simp_all
  with Suc.prems(1) have len: "length (nodesFrom tbl (Suc k) n) = n" by simp
  show ?case
  proof (cases i)
    case 0
    then show ?thesis using nd by simp
  next
    case (Suc j)
    with Suc.prems(2) have "j < n" by simp
    from Suc.IH [OF len this] show ?thesis using nd Suc by simp
  qed
qed

lemma scheduleMany_nodes:
  assumes "scheduleMany P bs s = Inr s'"
  shows "nodesFrom (nodes s') (nodeCount s) (length bs) = expectedNodes P (nextStartTimeRef s) bs \<and>
         length (expectedNodes P (nextStartTimeRef s) bs) = length bs \<and>
         nodeCount s' = nodeCount s + length bs \<and>
         (\<forall>k<nodeCount s. nodes s' k = nodes s k) \<and>
         set (sourcesRef s) \<union> {nodeCount s ..< nodeCount s + length bs} \<subseteq> set (sourcesRef s')"
  using assms
proof (induction bs arbitrary: s)
  case Nil
  then show ?case by simp
next
  case (Cons b bs)
  from Cons.prems obtain s1 where s1: "scheduleAudio P (fst b) (snd b) s = Inr s1"
    and rest: "scheduleMany P bs s1 = Inr s'"
    by (cases "scheduleAudio P (fst b) (snd b) s") simp_all
  from s1 obtain d where d: "decodeAudioData P (snd b) = Inr d"
    and e: "s1 = s\<lparr>nextStartTimeRef := max (nextStartTimeRef s) (currentTime (fst b)) + d,
           nodeCount := Suc (nodeCount s),
           nodes := (nodes s)(nodeCount s \<mapsto>
              \<lparr>startAt = max (nextStartTimeRef s) (currentTime (fst b)), duration = d, state_node = Scheduled\<rparr>),
           sourcesRef := set_add (nodeCount s) (sourcesRef s)\<rparr>"
    by (rule scheduleAudio_returns)
  have f: "nextStartTimeRef s1 = max (nextStartTimeRef s) (currentTime (fst b)) + d"
    "nodeCount s1 = Suc (nodeCount s)"
    "nodes s1 = (nodes s)(nodeCount s \<mapsto>
              \<lparr>startAt = max (nextStartTimeRef s) (currentTime (fst b)), duration = d, state_node = Scheduled\<rparr>)"
    "set (sourcesRef s1) = insert (nodeCount s) (set (sourcesRef s))"
    by (simp_all add: e set_set_add)
  note IH = Cons.IH [OF rest, unfolded f]
  from IH have frame: "\<forall>k<Suc (nodeCount s). nodes s' k = nodes s1 k" by (simp add: f)
  then have here: "nodes s' (nodeCount s) =
      Some \<lparr>startAt = max (nextStartTimeRef s) (currentTime (fst b)), duration = d, state_node = Scheduled\<rparr>"
    by (simp add: f)
  have 1: "nodesFrom (nodes s') (nodeCount s) (length (b # bs)) = expectedNodes P (nextStartTimeRef s) (b # bs)"
    using IH here d by simp
  have 2: "length (expectedNodes P (nextStartTimeRef s) (b # bs)) = length (b # bs)"
    using IH d by simp
  have 3: "nodeCount s' = nodeCount s + length (b # bs)"
    using IH by simp
  have 4: "\<forall>k<nodeCount s. nodes s' k = nodes s k"
    using frame by (simp add: f)
  have 5: "set (sourcesRef s) \<union> {nodeCount s ..< nodeCount s + length (b # bs)} \<subseteq> set (sourcesRef s')"
  proof -
    have "{nodeCount s ..< nodeCount s + length (b # bs)} =
            insert (nodeCount s) {Suc (nodeCount s) ..< Suc (nodeCount s) + length bs}"
      by auto
    then show ?thesis using IH by auto
  qed
  from 1 2 3 4 5 show ?case by blast
qed

lemma expectedNodes_recurrence:
  assumes "length (expectedNodes P c bs) = length bs"
  shows "(\<forall>n<length bs.
            decodeAudioData P (snd (bs ! n)) = Inr (duration (expectedNodes P c bs ! n)) \<and>
            state_node (expectedNodes P c bs ! n) = Scheduled) \<and>
         (bs \<noteq> [] \<longrightarrow> startAt (expectedNodes P c bs ! 0) = max c (currentTime (fst (bs ! 0)))) \<and>
         (\<forall>n. Suc n < length bs \<longrightarrow>
            startAt (expectedNodes P c bs ! Suc n) =
              max (startAt (expectedNodes P c bs ! n) + duration (expectedNodes P c bs ! n))
                (currentTime (fst (bs ! Suc n))))"
  using assms
proof (induction bs arbitrary: c)
  case Nil
  then show ?case by simp
next
  case (Cons b bs)
  from Cons.prems obtain d where d: "decodeAudioData P (snd b) = Inr d"
    by (cases "decodeAudioData P (snd b)") simp_all
  let ?c' = "max c (currentTime (fst b)) + d"
  let ?nd = "\<lparr>startAt = max c (currentTime (fst b)), duration = d, state_node = Scheduled\<rparr>"
  have ex: "expectedNodes P c (b # bs) = ?nd # expectedNodes P ?c' bs"
    using d by simp
  with Cons.prems have len: "length (expectedNodes P ?c' bs) = length bs" by simp
  note IH = Cons.IH [OF len]
  have 1: "decodeAudioData P (snd ((b # bs) ! n)) = Inr (duration (expectedNodes P c (b # bs) ! n)) \<and>
            state_node (expectedNodes P c (b # bs) ! n) = Scheduled" if "n < length (b # bs)" for n
  proof (cases n)
    case 0
    then show ?thesis using d unfolding ex by (simp del: expectedNodes.simps)
  next
    case (Suc m)
    with that have "m < length bs" by simp
    with IH show ?thesis using Suc unfolding ex by (simp del: expectedNodes.simps)
  qed
  have 2: "startAt (expectedNodes P c (b # bs) ! 0) = max c (currentTime (fst ((b # bs) ! 0)))"
    unfolding ex by simp
  have 3: "startAt (expectedNodes P c (b # bs) ! Suc n) =
              max (startAt (expectedNodes P c (b # bs) ! n) + duration (expectedNodes P c (b # bs) ! n))
                (currentTime (fst ((b # bs) ! Suc n)))" if "Suc n < length (b # bs)" for n
  proof (cases n)
    case 0
    with that have "bs \<noteq> []" by auto
    with IH show ?thesis using 0 unfolding ex by (simp del: expectedNodes.simps)
  next
    case (Suc m)
    with that have "Suc m < length bs" by simp
    with IH show ?thesis using Suc unfolding ex by (simp del: expectedNodes.simps)
  qed
  from 1 2 3 show ?case by blast
qed

lemma onended_removes: "n \<notin> set (sourcesRef (onended n s))"
  by (simp add: onended_def set_delete_def)

lemma naturalCompletion_removes: "n \<notin> set (sourcesRef (naturalCompletion n s))"
  by (simp add: naturalCompletion_def onended_removes)

lemma naturalCompletion_others:
  "set (sourcesRef (naturalCompletion n s)) = set (sourcesRef s) - {n}"
  by (auto simp: naturalCompletion_def onended_def set_delete_def split: option.splits)

lemma scheduleMany_returns:
  assumes "\<forall>b \<in> set bs. \<exists>d. decodeAudioData P (snd b) = Inr d"
  shows "\<exists>s'. scheduleMany P bs s = Inr s'"
  using assms
proof (induction bs arbitrary: s)
  case Nil
  then show ?case by simp
next
  case (Cons b bs)
  from Cons.prems obtain d where "decodeAudioData P (snd b) = Inr d" by auto
  then obtain s1 where "scheduleAudio P (fst b) (snd b) s = Inr s1"
    by (simp add: scheduleAudio_decoded)
  moreover from Cons.prems have "\<forall>b \<in> set bs. \<exists>d. decodeAudioData P (snd b) = Inr d" by simp
  from Cons.IH [OF this, of s1] obtain s' where "scheduleMany P bs s1 = Inr s'" ..
  ultimately show ?case by simp
qed

text \<open>
  Claim C3. A sequence of audio payloads that all decode, scheduled with nothing in
  between, is scheduled without an error. Every payload gets its own node, started
  and entered in the active set; the first starts at the larger of the cursor and the output clock, and each
  later one at the larger of the end of its predecessor (its start plus its duration,
  which is where the cursor was moved) and the output clock read then. So when the
  clock is not past the cursor, a node starts exactly where its predecessor ends.
  Natural completion of a node takes it out of the active set.
\<close>

theorem gapless_sequential_playback:
  assumes "\<forall>b \<in> set bs. \<exists>d. decodeAudioData P (snd b) = Inr d"
  shows "\<exists>s'. scheduleMany P bs s = Inr s' \<and>
         (let nds = nodesFrom (nodes s') (nodeCount s) (length bs) in
          length nds = length bs \<and>
          (\<forall>n<length bs.
             nodes s' (nodeCount s + n) = Some (nds ! n) \<and>
             decodeAudioData P (snd (bs ! n)) = Inr (duration (nds ! n)) \<and>
             state_node (nds ! n) = Scheduled \<and>
             nodeCount s + n \<in> set (sourcesRef s') \<and>
             nodeCount s + n \<notin> set (sourcesRef (naturalCompletion (nodeCount s + n) s'))) \<and>
          (bs \<noteq> [] \<longrightarrow>
             startAt (nds ! 0) = max (nextStartTimeRef s) (currentTime (fst (bs ! 0)))) \<and>
          (\<forall>n. Suc n < length bs \<longrightarrow>
             startAt (nds ! Suc n) =
               max (startAt (nds ! n) + duration (nds ! n)) (currentTime (fst (bs ! Suc n)))) \<and>
          (\<forall>n. Suc n < length bs \<and>
                currentTime (fst (bs ! Suc n)) \<le> startAt (nds ! n) + duration (nds ! n) \<longrightarrow>
             startAt (nds ! Suc n) = startAt (nds ! n) + duration (nds ! n)))"
proof -
  from scheduleMany_returns [OF assms, of s]
  obtain s' where run: "scheduleMany P bs s = Inr s'" ..
  let ?nds = "nodesFrom (nodes s') (nodeCount s) (length bs)"
  let ?exp = "expectedNodes P (nextStartTimeRef s) bs"
  note A = scheduleMany_nodes [OF run]
  from A have eq: "?nds = ?exp" and len: "length ?exp = length bs" by blast+
  have len': "length ?nds = length bs" using eq len by simp
  note R = expectedNodes_recurrence [OF len, folded eq]
  have 1: "nodes s' (nodeCount s + n) = Some (?nds ! n)" if "n < length bs" for n
    using nodesFrom_nth [OF len' that] .
  have 2: "nodeCount s + n \<in> set (sourcesRef s')" if "n < length bs" for n
  proof -
    have "nodeCount s + n \<in> {nodeCount s ..< nodeCount s + length bs}" using that by simp
    with A show ?thesis by blast
  qed
  have 3: "startAt (?nds ! Suc n) = startAt (?nds ! n) + duration (?nds ! n)"
    if "Suc n < length bs" "currentTime (fst (bs ! Suc n)) \<le> startAt (?nds ! n) + duration (?nds ! n)" for n
  proof -
    from R that(1) have "startAt (?nds ! Suc n) =
        max (startAt (?nds ! n) + duration (?nds ! n)) (currentTime (fst (bs ! Suc n)))"
      by blast
    with that(2) show ?thesis by (simp add: max_def)
  qed
  have "length ?nds = length bs \<and>
          (\<forall>n<length bs.
             nodes s' (nodeCount s + n) = Some (?nds ! n) \<and>
             decodeAudioData P (snd (bs ! n)) = Inr (duration (?nds ! n)) \<and>
             state_node (?nds ! n) = Scheduled \<and>
             nodeCount s + n \<in> set (sourcesRef s') \<and>
             nodeCount s + n \<notin> set (sourcesRef (naturalCompletion (nodeCount s + n) s'))) \<and>
          (bs \<noteq> [] \<longrightarrow>
             startAt (?nds ! 0) = max (nextStartTimeRef s) (currentTime (fst (bs ! 0)))) \<and>
          (\<forall>n. Suc n < length bs \<longrightarrow>
             startAt (?nds ! Suc n) =
               max (startAt (?nds ! n) + duration (?nds ! n)) (currentTime (fst (bs ! Suc n)))) \<and>
          (\<forall>n. Suc n < length bs \<and>
                currentTime (fst (bs ! Suc n)) \<le> startAt (?nds ! n) + duration (?nds ! n) \<longrightarrow>
             startAt (?nds ! Suc n) = startAt (?nds ! n) + duration (?nds ! n))"
    using len' 1 2 3 R naturalCompletion_removes by blast
  with run show ?thesis
    unfolding Let_def by blast
qed

theorem gapless_sequential_playback_witness:
  "\<not> raised (scheduleMany examplePlatform exampleBuffers initialSession) \<and>
   map startAt (nodesFrom
     (nodes (outcome_state (scheduleMany examplePlatform exampleBuffers initialSession))) 0 3) =
     [5, 9, 20] \<and>
   map duration (nodesFrom
     (nodes (outcome_state (scheduleMany examplePlatform exampleBuffers initialSession))) 0 3) =
     [4, 2, 1] \<and>
   sourcesRef (outcome_state (scheduleMany examplePlatform exampleBuffers initialSession)) = [0, 1, 2] \<and>
   1 \<notin> set (sourcesRef (naturalCompletion 1
     (outcome_state (scheduleMany examplePlatform exampleBuffers initialSession))))"
proof -
  let ?r = "scheduleMany examplePlatform exampleBuffers initialSession"
  have dec: "\<forall>b \<in> set exampleBuffers. \<exists>d. decodeAudioData examplePlatform (snd b) = Inr d"
    by (simp add: examplePlatform_def decodeByLength_def)
  have i: "nodeCount initialSession = 0" "length exampleBuffers = 3"
    by (simp_all add: initialSession_def exampleBuffers_def)
  from gapless_sequential_playback [OF dec, of initialSession, unfolded Let_def i]
  obtain s' where run: "?r = Inr s'"
    and out: "\<forall>n<3. 0 + n \<notin> set (sourcesRef (naturalCompletion (0 + n) s'))"
    by blast
  have s': "outcome_state ?r = s'" "\<not> raised ?r"
    by (simp_all add: run outcome_state_def raised_def)
  from out have "1 \<notin> set (sourcesRef (naturalCompletion 1 s'))"
    by (auto dest: spec [where x = 1])
  moreover have "map startAt (nodesFrom (nodes (outcome_state ?r)) 0 3) = [5, 9, 20]"
    "map duration (nodesFrom (nodes (outcome_state ?r)) 0 3) = [4, 2, 1]"
    "sourcesRef (outcome_state ?r) = [0, 1, 2]"
    by (simp_all add: exampleBuffers_def scheduleAudio_def Let_def examplePlatform_def
        decodeByLength_def outcome_state_def initialSession_def set_add_def numeral_3_eq_3)
  ultimately show ?thesis
    using s' by simp
qed

subsection \<open>The transcription assembler\<close>

lemma appendTranscription_eq:
  "appendTranscription who t txt prev =
     (if prev \<noteq> [] \<and> sender_ti (last prev) = who
      then butlast prev @ [(last prev)\<lparr>text_ti := text_ti (last prev) @ txt\<rparr>]
      else prev @ [\<lparr>id_ti = string_of_nat t, sender_ti = who, text_ti = txt, timestamp_ti = t\<rparr>])"
proof (cases "prev = []")
  case True
  then show ?thesis by (simp add: appendTranscription_def)
next
  case False
  then obtain ys y where "prev = ys @ [y]" by (metis rev_exhaust)
  then show ?thesis by (simp add: appendTranscription_def)
qed

lemma appendTranscription_last:
  "appendTranscription who t txt prev \<noteq> [] \<and>
   sender_ti (last (appendTranscription who t txt prev)) = who"
  by (simp add: appendTranscription_eq)

lemma appendTranscription_butlast:
  "prefix (butlast prev) (butlast (appendTranscription who t txt prev))"
  by (simp add: appendTranscription_eq prefixeq_butlast)

lemma assemble_Cons:
  "assemble (f # fs) prev =
     assemble fs (appendTranscription (frag_sender f) (frag_time f) (frag_text f) prev)"
  by (simp add: assemble_def)

lemma assemble_prefix: "prefix (butlast prev) (assemble fs prev)"
proof (induction fs arbitrary: prev)
  case Nil
  then show ?case by (simp add: assemble_def prefixeq_butlast)
next
  case (Cons f fs)
  let ?prev' = "appendTranscription (frag_sender f) (frag_time f) (frag_text f) prev"
  have "prefix (butlast prev) (butlast ?prev')" by (rule appendTranscription_butlast)
  also have "prefix (butlast ?prev') (assemble fs ?prev')" by (rule Cons.IH)
  finally show ?case by (simp add: assemble_Cons)
qed



lemma speakerRuns_Nil: "speakerRuns fs = [] \<longleftrightarrow> fs = []"
  by (cases fs) (simp_all split: list.splits)

lemma speakerRuns_concat: "concat (speakerRuns fs) = fs"
  by (induction fs) (auto split: list.splits)

lemma onmessage_transcriptionMessage:
  "onmessage P clk (transcriptionMessage who txt) s =
     Inr (s\<lparr>transcriptions := appendTranscription who (now clk) txt (transcriptions s)\<rparr>)"
  by (cases who)
     (simp_all add: onmessage_def transcriptionMessage_def noContent_def transcriptionBranches_def
      onTranscription_def audioBranch_def base64AudioOf_def toolCallBranch_def
      interruptedBranch_def andThen_def)


lemma assemble_runs:
  "assemble fs prev =
     (case speakerRuns fs of
        [] \<Rightarrow> prev
      | r # rs \<Rightarrow>
          if prev \<noteq> [] \<and> sender_ti (last prev) = frag_sender (hd r)
          then butlast prev @
                 [(last prev)\<lparr>text_ti := text_ti (last prev) @ concat (map frag_text r)\<rparr>] @
                 map runEntry rs
          else prev @ map runEntry (r # rs))"
proof (induction fs arbitrary: prev)
  case Nil
  then show ?case by (simp add: assemble_def)
next
  case (Cons f fs)
  note hyp = Cons.IH
  let ?prev' = "appendTranscription (frag_sender f) (frag_time f) (frag_text f) prev"
  note L = appendTranscription_last [of "frag_sender f" "frag_time f" "frag_text f" prev]
  show ?case
  proof (cases "speakerRuns fs")
    case Nil
    then have "fs = []" by (simp add: speakerRuns_Nil)
    then show ?thesis
      by (simp add: assemble_def appendTranscription_eq runEntry_def)
  next
    case runs: (Cons r rs)
    have IH: "assemble fs ?prev' =
       (if sender_ti (last ?prev') = frag_sender (hd r)
          then butlast ?prev' @
                 [(last ?prev')\<lparr>text_ti := text_ti (last ?prev') @ concat (map frag_text r)\<rparr>] @
                 map runEntry rs
          else ?prev' @ map runEntry (r # rs))"
      using hyp [of ?prev'] L by (simp add: runs)
    show ?thesis
    proof (cases "frag_sender (hd r) = frag_sender f")
      case True
      then have "assemble (f # fs) prev = butlast ?prev' @
                 [(last ?prev')\<lparr>text_ti := text_ti (last ?prev') @ concat (map frag_text r)\<rparr>] @
                 map runEntry rs"
        using L by (simp add: assemble_Cons IH)
      then show ?thesis
        using True by (simp add: runs appendTranscription_eq runEntry_def)
    next
      case False
      then have "assemble (f # fs) prev = ?prev' @ map runEntry (r # rs)"
        using L by (simp add: assemble_Cons IH)
      then show ?thesis
        using False by (simp add: runs appendTranscription_eq runEntry_def)
    qed
  qed
qed

lemma assemble_empty: "assemble fs [] = map runEntry (speakerRuns fs)"
  by (simp add: assemble_runs split: list.splits)


lemma speakerRuns_Cons_cases:
  "speakerRuns (f # fs) = [[f]] \<and> fs = [] \<or>
   (\<exists>q qs. speakerRuns fs = q # qs \<and> frag_sender (hd q) = frag_sender f \<and>
        speakerRuns (f # fs) = (f # q) # qs) \<or>
   (\<exists>q qs. speakerRuns fs = q # qs \<and> frag_sender (hd q) \<noteq> frag_sender f \<and>
        speakerRuns (f # fs) = [f] # q # qs)"
proof (cases "speakerRuns fs")
  case Nil
  then show ?thesis by (simp add: speakerRuns_Nil)
next
  case (Cons q qs)
  then show ?thesis by simp
qed


lemma speakerRuns_uniform:
  "r \<in> set (speakerRuns fs) \<Longrightarrow> r \<noteq> [] \<and> (\<forall>f \<in> set r. frag_sender f = frag_sender (hd r))"
proof (induction fs arbitrary: r)
  case Nil
  then show ?case by simp
next
  case (Cons f fs)
  note hyp = Cons.IH and mem = Cons.prems
  consider (one) "speakerRuns (f # fs) = [[f]]"
    | (join) q qs where "speakerRuns fs = q # qs" "frag_sender (hd q) = frag_sender f"
        "speakerRuns (f # fs) = (f # q) # qs"
    | (new) q qs where "speakerRuns fs = q # qs" "speakerRuns (f # fs) = [f] # q # qs"
    using speakerRuns_Cons_cases [of f fs] by blast
  then show ?case
  proof cases
    case one
    with mem have "r = [f]" by (simp del: speakerRuns.simps)
    then show ?thesis by simp
  next
    case join
    have q: "q \<noteq> [] \<and> (\<forall>g \<in> set q. frag_sender g = frag_sender (hd q))"
      by (rule hyp) (simp add: join(1))
    from mem have "r = f # q \<or> r \<in> set qs"
      by (simp only: join(3) set_simps insert_iff)
    then show ?thesis
    proof
      assume "r = f # q"
      then show ?thesis using q join(2) by simp
    next
      assume "r \<in> set qs"
      then have "r \<in> set (speakerRuns fs)" by (simp add: join(1))
      then show ?thesis by (rule hyp)
    qed
  next
    case new
    from mem have "r = [f] \<or> r \<in> set (speakerRuns fs)"
      by (simp only: new set_simps insert_iff)
    then show ?thesis
    proof
      assume "r = [f]"
      then show ?thesis by simp
    next
      assume "r \<in> set (speakerRuns fs)"
      then show ?thesis by (rule hyp)
    qed
  qed
qed


lemma speakerRuns_maximal:
  "Suc i < length (speakerRuns fs) \<Longrightarrow>
     frag_sender (hd (speakerRuns fs ! i)) \<noteq> frag_sender (hd (speakerRuns fs ! Suc i))"
proof (induction fs arbitrary: i)
  case Nil
  then show ?case by simp
next
  case (Cons f fs)
  note hyp = Cons.IH and len = Cons.prems
  consider (one) "speakerRuns (f # fs) = [[f]]"
    | (join) q qs where "speakerRuns fs = q # qs" "frag_sender (hd q) = frag_sender f"
        "speakerRuns (f # fs) = (f # q) # qs"
    | (new) q qs where "speakerRuns fs = q # qs" "frag_sender (hd q) \<noteq> frag_sender f"
        "speakerRuns (f # fs) = [f] # q # qs"
    using speakerRuns_Cons_cases [of f fs] by blast
  then show ?case
  proof cases
    case one
    with len show ?thesis by (simp del: speakerRuns.simps)
  next
    case join
    from len have l: "Suc i < length (speakerRuns fs)"
      by (simp only: join(1,3) list.size)
    note H = hyp [OF l, unfolded join(1)]
    show ?thesis
    proof (cases i)
      case 0
      with H show ?thesis by (simp add: join(2,3) del: speakerRuns.simps)
    next
      case (Suc j)
      with H show ?thesis by (simp add: join(3) del: speakerRuns.simps)
    qed
  next
    case new
    show ?thesis
    proof (cases i)
      case 0
      then show ?thesis using new(2) by (simp add: new(3) del: speakerRuns.simps)
    next
      case (Suc j)
      with len have l: "Suc j < length (speakerRuns fs)"
        by (simp add: new(1,3) del: speakerRuns.simps)
      note H = hyp [OF l, unfolded new(1)]
      then show ?thesis using Suc by (simp add: new(3) del: speakerRuns.simps)
    qed
  qed
qed

lemma appendTranscription_length: "length prev \<le> length (appendTranscription who t txt prev)"
  by (simp add: appendTranscription_def)

lemma assemble_length: "length prev \<le> length (assemble fs prev)"
proof (induction fs arbitrary: prev)
  case Nil
  then show ?case by (simp add: assemble_def)
next
  case (Cons f fs)
  let ?prev' = "appendTranscription (frag_sender f) (frag_time f) (frag_text f) prev"
  have "length prev \<le> length ?prev'" by (rule appendTranscription_length)
  also have "\<dots> \<le> length (assemble fs ?prev')" by (rule Cons.IH)
  finally show ?case by (simp add: assemble_Cons)
qed

lemma assemble_last_grows:
  assumes "prev \<noteq> []"
  shows "\<exists>x. assemble fs prev ! (length prev - 1) = (last prev)\<lparr>text_ti := text_ti (last prev) @ x\<rparr>"
proof -
  from assms obtain ys y where p: "prev = ys @ [y]" by (metis rev_exhaust)
  show ?thesis
  proof (cases "speakerRuns fs")
    case Nil
    then have "assemble fs prev ! (length prev - 1) = (last prev)\<lparr>text_ti := text_ti (last prev) @ []\<rparr>"
      by (simp add: assemble_runs p)
    then show ?thesis by blast
  next
    case (Cons r rs)
    show ?thesis
    proof (cases "sender_ti (last prev) = frag_sender (hd r)")
      case True
      then have "assemble fs prev ! (length prev - 1) =
          (last prev)\<lparr>text_ti := text_ti (last prev) @ concat (map frag_text r)\<rparr>"
        using Cons by (simp add: assemble_runs p nth_append)
      then show ?thesis by blast
    next
      case False
      then have "assemble fs prev ! (length prev - 1) = (last prev)\<lparr>text_ti := text_ti (last prev) @ []\<rparr>"
        using Cons by (simp add: assemble_runs p nth_append)
      then show ?thesis by blast
    qed
  qed
qed

text \<open>
  Claim C2. A fragment is appended to the text of the last entry when that entry has
  the fragment's speaker, and otherwise becomes a new entry at the end; a message
  carrying a transcription does exactly that to the transcript. Assembled from the
  empty transcript, a sequence of fragments yields one entry per maximal run of
  consecutive fragments of one speaker, in order, with the concatenated text of the
  run (the runs are not empty, have one speaker each, differ in speaker from their
  neighbours and together are the sequence). From any transcript, all entries but the
  last remain as they were and where they were, the transcript never gets shorter, and
  the entry that was last has only had text appended.
\<close>

theorem transcript_assembly:
  "appendTranscription who t txt prev =
     (if prev \<noteq> [] \<and> sender_ti (last prev) = who
      then butlast prev @ [(last prev)\<lparr>text_ti := text_ti (last prev) @ txt\<rparr>]
      else prev @ [\<lparr>id_ti = string_of_nat t, sender_ti = who, text_ti = txt, timestamp_ti = t\<rparr>]) \<and>
   onmessage P clk (transcriptionMessage who txt) s =
     Inr (s\<lparr>transcriptions := appendTranscription who (now clk) txt (transcriptions s)\<rparr>) \<and>
   assemble fs [] = map runEntry (speakerRuns fs) \<and>
   concat (speakerRuns fs) = fs \<and>
   (\<forall>r \<in> set (speakerRuns fs). r \<noteq> [] \<and> (\<forall>f \<in> set r. frag_sender f = frag_sender (hd r))) \<and>
   (\<forall>i. Suc i < length (speakerRuns fs) \<longrightarrow>
      frag_sender (hd (speakerRuns fs ! i)) \<noteq> frag_sender (hd (speakerRuns fs ! Suc i))) \<and>
   prefix (butlast prev) (assemble fs prev) \<and>
   length prev \<le> length (assemble fs prev) \<and>
   (prev \<noteq> [] \<longrightarrow>
      (\<exists>x. assemble fs prev ! (length prev - 1) =
         (last prev)\<lparr>text_ti := text_ti (last prev) @ x\<rparr>))"
  using appendTranscription_eq [of who t "txt" prev] onmessage_transcriptionMessage [of P clk who "txt" s]
    assemble_empty [of fs] speakerRuns_concat [of fs] speakerRuns_uniform [of _ fs]
    speakerRuns_maximal [of _ fs] assemble_prefix [of prev fs] assemble_length [of prev fs]
    assemble_last_grows [of prev fs]
  by blast

theorem transcript_assembly_witness:
  "speakerRuns exampleFragments =
     [[\<lparr>frag_sender = User, frag_time = 1000, frag_text = ''Hel''\<rparr>,
       \<lparr>frag_sender = User, frag_time = 1001, frag_text = ''lo''\<rparr>],
      [\<lparr>frag_sender = Ai, frag_time = 1002, frag_text = ''Hi''\<rparr>],
      [\<lparr>frag_sender = User, frag_time = 1003, frag_text = ''Bye''\<rparr>]] \<and>
   assemble exampleFragments [] =
     [\<lparr>id_ti = ''1000'', sender_ti = User, text_ti = ''Hello'', timestamp_ti = 1000\<rparr>,
      \<lparr>id_ti = ''1002'', sender_ti = Ai, text_ti = ''Hi'', timestamp_ti = 1002\<rparr>,
      \<lparr>id_ti = ''1003'', sender_ti = User, text_ti = ''Bye'', timestamp_ti = 1003\<rparr>] \<and>
   appendTranscription Ai 1004 ''!'' (assemble exampleFragments []) =
     assemble exampleFragments [] @
       [\<lparr>id_ti = ''1004'', sender_ti = Ai, text_ti = ''!'', timestamp_ti = 1004\<rparr>]"
proof -
  have r: "speakerRuns exampleFragments =
     [[\<lparr>frag_sender = User, frag_time = 1000, frag_text = ''Hel''\<rparr>,
       \<lparr>frag_sender = User, frag_time = 1001, frag_text = ''lo''\<rparr>],
      [\<lparr>frag_sender = Ai, frag_time = 1002, frag_text = ''Hi''\<rparr>],
      [\<lparr>frag_sender = User, frag_time = 1003, frag_text = ''Bye''\<rparr>]]"
    by (simp add: exampleFragments_def)
  note T = transcript_assembly [of Ai 1004 "''!''" "assemble exampleFragments []"
      examplePlatform exampleClock initialSession exampleFragments]
  from T have "assemble exampleFragments [] = map runEntry (speakerRuns exampleFragments)"
    by blast
  then have a: "assemble exampleFragments [] =
     [\<lparr>id_ti = ''1000'', sender_ti = User, text_ti = ''Hello'', timestamp_ti = 1000\<rparr>,
      \<lparr>id_ti = ''1002'', sender_ti = Ai, text_ti = ''Hi'', timestamp_ti = 1002\<rparr>,
      \<lparr>id_ti = ''1003'', sender_ti = User, text_ti = ''Bye'', timestamp_ti = 1003\<rparr>]"
    by (simp add: r runEntry_def string_of_nat.simps digit_char_def)
  have "appendTranscription Ai 1004 ''!'' (assemble exampleFragments []) =
     assemble exampleFragments [] @
       [\<lparr>id_ti = ''1004'', sender_ti = Ai, text_ti = ''!'', timestamp_ti = 1004\<rparr>]"
    unfolding a by (simp add: appendTranscription_def string_of_nat.simps digit_char_def)
  with r a show ?thesis by simp
qed


end
